theory Spec2Isabelle
  imports Complex_Main "HOL-Library.Word"
begin

section \<open>Strings and query strings\<close>

text \<open>
  The search page (\<^verbatim>\<open>SearchPage\<close> and \<^verbatim>\<open>ItemCard\<close>) is embedded as functions on an
  explicit component state. A JavaScript string is the list of its 16-bit code units
  (\<open>jsstring\<close>). \<^verbatim>\<open>URLSearchParams\<close> works on bytes: it turns a string into its scalar values
  (an unpaired surrogate becomes U+FFFD), encodes them in UTF-8 and hands the bytes to the
  \<^verbatim>\<open>application/x-www-form-urlencoded\<close> serializer; its parser percent-decodes to bytes
  and decodes them as UTF-8, every ill-formed sequence giving U+FFFD. A byte is a
  \<^typ>\<open>char\<close>, a byte sequence a \<^typ>\<open>string\<close>.
\<close>

subsection \<open>The urlencoded serializer and parser on bytes\<close>

text \<open>
  Bytes left as they are by the serializer: ASCII letters and digits and \<^verbatim>\<open>* - . _\<close>.
  A space becomes \<^verbatim>\<open>+\<close>, every other byte \<^verbatim>\<open>%XX\<close> with upper-case hexadecimal digits.
\<close>

definition unreserved :: "char \<Rightarrow> bool" where
  "unreserved c =
     (let n = (of_char c :: nat)
      in (48 \<le> n \<and> n \<le> 57) \<or> (65 \<le> n \<and> n \<le> 90) \<or> (97 \<le> n \<and> n \<le> 122)
         \<or> n = 42 \<or> n = 45 \<or> n = 46 \<or> n = 95)"

definition upper_hex_digit :: "nat \<Rightarrow> char" where
  "upper_hex_digit d = (if d < 10 then char_of (48 + d) else char_of (55 + d))"

definition percent_encode_byte :: "char \<Rightarrow> string" where
  "percent_encode_byte c =
     [CHR ''%'', upper_hex_digit ((of_char c :: nat) div 16), upper_hex_digit ((of_char c :: nat) mod 16)]"

definition is_hex_digit :: "char \<Rightarrow> bool" where
  "is_hex_digit c =
     (let n = (of_char c :: nat)
      in (48 \<le> n \<and> n \<le> 57) \<or> (65 \<le> n \<and> n \<le> 70) \<or> (97 \<le> n \<and> n \<le> 102))"

definition hex_value :: "char \<Rightarrow> nat" where
  "hex_value c =
     (let n = (of_char c :: nat)
      in if n \<le> 57 then n - 48 else if n \<le> 70 then n - 55 else n - 87)"

fun percent_decode :: "string \<Rightarrow> string" where
  "percent_decode [] = []"
| "percent_decode (c # r) =
     (if c \<noteq> CHR ''%'' then c # percent_decode r
      else (case r of
              a # b # r' \<Rightarrow>
                if is_hex_digit a \<and> is_hex_digit b
                then char_of (16 * hex_value a + hex_value b) # percent_decode r'
                else c # percent_decode r
            | _ \<Rightarrow> c # percent_decode r))"

definition urlencode_byte :: "char \<Rightarrow> string" where
  "urlencode_byte c =
     (if c = CHR '' '' then ''+''
      else if unreserved c then [c]
      else percent_encode_byte c)"

definition urlencode :: "string \<Rightarrow> string" where
  "urlencode s = concat (map urlencode_byte s)"

fun join_amp :: "string list \<Rightarrow> string" where
  "join_amp [] = []"
| "join_amp [p] = p"
| "join_amp (p # ps) = p @ CHR ''&'' # join_amp ps"

definition serialize_pair :: "string \<times> string \<Rightarrow> string" where
  "serialize_pair nv = urlencode (fst nv) @ CHR ''='' # urlencode (snd nv)"

definition urlencoded_serialize :: "(string \<times> string) list \<Rightarrow> string" where
  "urlencoded_serialize ps = join_amp (map serialize_pair ps)"

function split_on :: "char \<Rightarrow> string \<Rightarrow> string list" where
  "split_on d s =
     (case dropWhile (\<lambda>c. c \<noteq> d) s of
        [] \<Rightarrow> [takeWhile (\<lambda>c. c \<noteq> d) s]
      | _ # r \<Rightarrow> takeWhile (\<lambda>c. c \<noteq> d) s # split_on d r)"
  by pat_completeness auto
termination
proof (relation "measure (\<lambda>(d, s). length s)")
  fix d :: char and s c r
  assume "dropWhile (\<lambda>c. c \<noteq> d) s = c # r"
  then have "length s \<ge> Suc (length r)"
    using length_dropWhile_le [of "\<lambda>c. c \<noteq> d" s] by simp
  then show "((d, r), (d, s)) \<in> measure (\<lambda>(d, s). length s)" by simp
qed simp

definition plus_to_space :: "string \<Rightarrow> string" where
  "plus_to_space s = map (\<lambda>c. if c = CHR ''+'' then CHR '' '' else c) s"

definition parse_pair :: "string \<Rightarrow> string \<times> string" where
  "parse_pair bytes =
     (let name = takeWhile (\<lambda>c. c \<noteq> CHR ''='') bytes;
          val = (if CHR ''='' \<in> set bytes then tl (dropWhile (\<lambda>c. c \<noteq> CHR ''='') bytes) else [])
      in (percent_decode (plus_to_space name), percent_decode (plus_to_space val)))"

definition urlencoded_parse :: "string \<Rightarrow> (string \<times> string) list" where
  "urlencoded_parse input = map parse_pair (filter (\<lambda>b. b \<noteq> []) (split_on (CHR ''&'') input))"

text \<open>
  The parser splits on \<^verbatim>\<open>&\<close>, skips empty pieces, splits each piece at its first \<^verbatim>\<open>=\<close>,
  turns \<^verbatim>\<open>+\<close> into a space and percent-decodes name and value.
\<close>

subsection \<open>Strings of code units and their UTF-8 form\<close>

text \<open>
  \<open>js\<close> gives the string of code units of an ASCII literal of the source (and of a
  byte sequence, one code unit per byte). \<open>scalar_values\<close> reads a string as code points, a
  surrogate pair as one code point and an unpaired surrogate as U+FFFD. \<open>utf8_decoder\<close> is
  the decoder of the Encoding standard with its state (code point so far, bytes still needed,
  bounds of the next byte): a byte outside the bounds gives U+FFFD and is read again as the
  start of a sequence, and input that ends inside a sequence gives U+FFFD. \<open>usv\<close> is the
  scalar value string of a string, and a string is \<open>well_formed\<close> when it has no unpaired
  surrogate.
\<close>

type_synonym jsstring = "16 word list"

definition js :: "string \<Rightarrow> jsstring" where
  "js s = map (\<lambda>c. of_nat (of_char c)) s"

definition is_high :: "16 word \<Rightarrow> bool" where
  "is_high u = (0xD800 \<le> unat u \<and> unat u \<le> 0xDBFF)"

definition is_low :: "16 word \<Rightarrow> bool" where
  "is_low u = (0xDC00 \<le> unat u \<and> unat u \<le> 0xDFFF)"

fun scalar_values :: "jsstring \<Rightarrow> nat list" where
  "scalar_values [] = []"
| "scalar_values [u] = (if is_high u \<or> is_low u then [0xFFFD] else [unat u])"
| "scalar_values (u # v # r) =
     (if is_high u \<and> is_low v
      then (0x10000 + (unat u - 0xD800) * 0x400 + (unat v - 0xDC00)) # scalar_values r
      else if is_high u \<or> is_low u then 0xFFFD # scalar_values (v # r)
      else unat u # scalar_values (v # r))"

definition utf8_encode_code_point :: "nat \<Rightarrow> string" where
  "utf8_encode_code_point cp =
     (if cp < 0x80 then [char_of cp]
      else if cp < 0x800 then [char_of (0xC0 + cp div 64), char_of (0x80 + cp mod 64)]
      else if cp < 0x10000
        then [char_of (0xE0 + cp div 4096), char_of (0x80 + cp div 64 mod 64), char_of (0x80 + cp mod 64)]
      else [char_of (0xF0 + cp div 262144), char_of (0x80 + cp div 4096 mod 64),
            char_of (0x80 + cp div 64 mod 64), char_of (0x80 + cp mod 64)])"

definition utf8_encode :: "jsstring \<Rightarrow> string" where
  "utf8_encode s = concat (map utf8_encode_code_point (scalar_values s))"

function utf8_decoder :: "nat \<Rightarrow> nat \<Rightarrow> nat \<Rightarrow> nat \<Rightarrow> string \<Rightarrow> nat list" where
  "utf8_decoder cp needed lower upper [] = (if needed \<noteq> 0 then [0xFFFD] else [])"
| "utf8_decoder cp needed lower upper (c # r) =
     (let b = (of_char c :: nat)
      in if needed = 0 then
           if b \<le> 0x7F then b # utf8_decoder 0 0 0x80 0xBF r
           else if 0xC2 \<le> b \<and> b \<le> 0xDF then utf8_decoder (b mod 32) 1 0x80 0xBF r
           else if 0xE0 \<le> b \<and> b \<le> 0xEF
             then utf8_decoder (b mod 16) 2 (if b = 0xE0 then 0xA0 else 0x80)
                    (if b = 0xED then 0x9F else 0xBF) r
           else if 0xF0 \<le> b \<and> b \<le> 0xF4
             then utf8_decoder (b mod 8) 3 (if b = 0xF0 then 0x90 else 0x80)
                    (if b = 0xF4 then 0x8F else 0xBF) r
           else 0xFFFD # utf8_decoder 0 0 0x80 0xBF r
         else if b < lower \<or> upper < b then 0xFFFD # utf8_decoder 0 0 0x80 0xBF (c # r)
         else if needed = 1 then (cp * 64 + b mod 64) # utf8_decoder 0 0 0x80 0xBF r
         else utf8_decoder (cp * 64 + b mod 64) (needed - 1) 0x80 0xBF r)"
  by pat_completeness auto
termination
  by (relation "measure (\<lambda>(cp, needed, lower, upper, input). 2 * length input + (if needed = 0 then 0 else 1))")
     auto

definition utf16_encode_code_point :: "nat \<Rightarrow> jsstring" where
  "utf16_encode_code_point cp =
     (if cp < 0x10000 then [of_nat cp]
      else [of_nat (0xD800 + (cp - 0x10000) div 0x400), of_nat (0xDC00 + (cp - 0x10000) mod 0x400)])"

definition utf16_encode :: "nat list \<Rightarrow> jsstring" where
  "utf16_encode cps = concat (map utf16_encode_code_point cps)"

definition utf8_decode :: "string \<Rightarrow> jsstring" where
  "utf8_decode bytes = utf16_encode (utf8_decoder 0 0 0x80 0xBF bytes)"

definition usv :: "jsstring \<Rightarrow> jsstring" where
  "usv s = utf16_encode (scalar_values s)"

fun well_formed :: "jsstring \<Rightarrow> bool" where
  "well_formed [] = True"
| "well_formed [u] = (\<not> is_high u \<and> \<not> is_low u)"
| "well_formed (u # v # r) =
     (if is_high u then is_low v \<and> well_formed r
      else \<not> is_low u \<and> well_formed (v # r))"

definition is_scalar :: "nat \<Rightarrow> bool" where
  "is_scalar cp = (cp < 0x110000 \<and> \<not> (0xD800 \<le> cp \<and> cp \<le> 0xDFFF))"

definition ascii :: "string \<Rightarrow> bool" where
  "ascii bs = (\<forall>c \<in> set bs. (of_char c :: nat) < 128)"

subsection \<open>\<^verbatim>\<open>URLSearchParams\<close>\<close>

type_synonym URLSearchParams = "(jsstring \<times> jsstring) list"

definition URLSearchParams_of_string :: "jsstring \<Rightarrow> URLSearchParams" where
  \<comment> \<open>\<^verbatim>\<open>new URLSearchParams(init)\<close>: one leading \<^verbatim>\<open>?\<close> is dropped, the rest is encoded in
      UTF-8 and parsed, and each name and value is decoded from UTF-8.\<close>
  "URLSearchParams_of_string init =
     map (\<lambda>(name, v). (utf8_decode name, utf8_decode v))
       (urlencoded_parse
         (utf8_encode (case init of [] \<Rightarrow> [] | c # r \<Rightarrow> if c = 0x3F then r else init)))"

definition params_get :: "URLSearchParams \<Rightarrow> jsstring \<Rightarrow> jsstring option" where
  \<comment> \<open>\<^verbatim>\<open>params.get(name)\<close>: the value of the first pair with that name, \<open>None\<close> for \<^verbatim>\<open>null\<close>.\<close>
  "params_get ps name = map_of ps name"

definition params_toString :: "URLSearchParams \<Rightarrow> jsstring" where
  \<comment> \<open>\<^verbatim>\<open>params.toString()\<close>: names and values in UTF-8, serialised; the result is ASCII.\<close>
  "params_toString ps =
     js (urlencoded_serialize (map (\<lambda>(name, v). (utf8_encode name, utf8_encode v)) ps))"

definition or_empty :: "jsstring option \<Rightarrow> jsstring" where
  \<comment> \<open>\<^verbatim>\<open>v || ''\<close> for a value that is a string or \<^verbatim>\<open>null\<close>/\<^verbatim>\<open>undefined\<close>.\<close>
  "or_empty v = (case v of None \<Rightarrow> [] | Some x \<Rightarrow> x)"

definition append_nonempty :: "jsstring \<Rightarrow> jsstring \<Rightarrow> URLSearchParams \<Rightarrow> URLSearchParams" where
  \<comment> \<open>\<^verbatim>\<open>if (v) params.append(name, v)\<close> for a string \<open>v\<close>: only the empty string is falsy.
      The list keeps the strings as given; \<^verbatim>\<open>append\<close> turns them into scalar value strings,
      which here is done by \<open>utf8_encode\<close> when the list is serialised, the one use the page
      makes of a list it has appended to.\<close>
  "append_nonempty name v ps = (if v \<noteq> [] then ps @ [(name, v)] else ps)"

definition append_field :: "jsstring \<Rightarrow> jsstring option \<Rightarrow> URLSearchParams \<Rightarrow> URLSearchParams" where
  \<comment> \<open>The same test on an object property, which may be missing (\<^verbatim>\<open>undefined\<close>, falsy).\<close>
  "append_field name v ps = (case v of None \<Rightarrow> ps | Some x \<Rightarrow> append_nonempty name x ps)"

section \<open>The search page\<close>

subsection \<open>Data\<close>

record item =
  item_id :: jsstring
  titre :: jsstring
  description :: jsstring
  item_categorie :: jsstring
  item_canton :: jsstring
  ville :: jsstring
  prix_par_jour :: real
  note_moyenne :: real
  proprietaire_nom :: jsstring
  frais_inscription :: real
  images :: "jsstring list option"

text \<open>
  The argument of \<^verbatim>\<open>fetchItems\<close>: an object whose four properties may each be missing.
\<close>

record filters =
  q :: "jsstring option"
  canton :: "jsstring option"
  categorie :: "jsstring option"
  prix_max :: "jsstring option"

text \<open>
  How a request settles: rejected with a message, or resolved with a response whose
  \<^verbatim>\<open>data\<close> is either missing (\<open>None\<close>; reading \<^verbatim>\<open>data.items\<close> then throws) or an
  object \<^verbatim>\<open>{items: [...]}\<close>.
\<close>

datatype outcome = Rejected jsstring | Resolved "item list option"

datatype js_error = RequestFailed jsstring | TypeError

text \<open>
  Every call of a state setter and every call that leaves the component is recorded, in the
  order of execution, in the \<open>trace\<close> field of the state.
\<close>

datatype event =
    SetItems "item list"
  | SetLoading bool
  | SetSearchQuery jsstring
  | SetSelectedCanton jsstring
  | SetSelectedCategory jsstring
  | SetMaxPrice jsstring
  | SetShowFilters bool
  | AxiosGet jsstring
  | ConsoleError jsstring js_error
  | Navigate jsstring
  | PreventDefault

record state =
  items :: "item list"
  loading :: bool
  searchQuery :: jsstring
  selectedCanton :: jsstring
  selectedCategory :: jsstring
  maxPrice :: jsstring
  showFilters :: bool
  trace :: "event list"

definition initial_state :: state where
  "initial_state =
     \<lparr>items = [], loading = False, searchQuery = [], selectedCanton = [],
      selectedCategory = [], maxPrice = [], showFilters = False, trace = []\<rparr>"

definition emit :: "event \<Rightarrow> state \<Rightarrow> state" where
  "emit ev s = s\<lparr>trace := trace s @ [ev]\<rparr>"

definition setItems :: "item list \<Rightarrow> state \<Rightarrow> state" where
  "setItems xs s = emit (SetItems xs) (s\<lparr>items := xs\<rparr>)"

definition setLoading :: "bool \<Rightarrow> state \<Rightarrow> state" where
  "setLoading b s = emit (SetLoading b) (s\<lparr>loading := b\<rparr>)"

definition setSearchQuery :: "jsstring \<Rightarrow> state \<Rightarrow> state" where
  "setSearchQuery v s = emit (SetSearchQuery v) (s\<lparr>searchQuery := v\<rparr>)"

definition setSelectedCanton :: "jsstring \<Rightarrow> state \<Rightarrow> state" where
  "setSelectedCanton v s = emit (SetSelectedCanton v) (s\<lparr>selectedCanton := v\<rparr>)"

definition setSelectedCategory :: "jsstring \<Rightarrow> state \<Rightarrow> state" where
  "setSelectedCategory v s = emit (SetSelectedCategory v) (s\<lparr>selectedCategory := v\<rparr>)"

definition setMaxPrice :: "jsstring \<Rightarrow> state \<Rightarrow> state" where
  "setMaxPrice v s = emit (SetMaxPrice v) (s\<lparr>maxPrice := v\<rparr>)"

definition setShowFilters :: "bool \<Rightarrow> state \<Rightarrow> state" where
  "setShowFilters b s = emit (SetShowFilters b) (s\<lparr>showFilters := b\<rparr>)"

fun requests_of :: "event list \<Rightarrow> jsstring list" where
  "requests_of [] = []"
| "requests_of (AxiosGet url # evs) = url # requests_of evs"
| "requests_of (_ # evs) = requests_of evs"

fun navigations_of :: "event list \<Rightarrow> jsstring list" where
  "navigations_of [] = []"
| "navigations_of (Navigate target # evs) = target # navigations_of evs"
| "navigations_of (_ # evs) = navigations_of evs"

subsection \<open>\<^verbatim>\<open>fetchItems\<close>\<close>

definition API_BASE_URL :: "jsstring option \<Rightarrow> jsstring" where
  \<comment> \<open>\<^verbatim>\<open>process.env.REACT_APP_BACKEND_URL || 'http://localhost:8001'\<close>; the argument is the
      environment variable.\<close>
  "API_BASE_URL env =
     (case env of None \<Rightarrow> js ''http://localhost:8001''
      | Some u \<Rightarrow> if u \<noteq> [] then u else js ''http://localhost:8001'')"

definition fetch_params :: "filters \<Rightarrow> URLSearchParams" where
  "fetch_params f =
     append_field (js ''prix_max'') (prix_max f)
       (append_field (js ''categorie'') (categorie f)
         (append_field (js ''canton'') (canton f)
           (append_field (js ''q'') (q f) [])))"

definition fetch_url :: "jsstring option \<Rightarrow> filters \<Rightarrow> jsstring" where
  "fetch_url env f = API_BASE_URL env @ js ''/api/items?'' @ params_toString (fetch_params f)"

text \<open>
  \<^verbatim>\<open>fetchItems\<close> is asynchronous. \<open>fetchItems_start\<close> is what runs up to the
  \<^verbatim>\<open>await\<close>: \<^verbatim>\<open>setLoading(true)\<close>, the parameters, the request.
  \<open>fetchItems_settle\<close> is the rest, run when the request has settled: the body after the
  \<^verbatim>\<open>await\<close> or the \<^verbatim>\<open>catch\<close> block, then the \<^verbatim>\<open>finally\<close> block. The backend is a function
  from the requested address to the outcome of the request.
\<close>

definition fetchItems_start :: "jsstring option \<Rightarrow> filters \<Rightarrow> state \<Rightarrow> state" where
  "fetchItems_start env f s = emit (AxiosGet (fetch_url env f)) (setLoading True s)"

definition fetchItems_settle :: "outcome \<Rightarrow> state \<Rightarrow> state" where
  "fetchItems_settle r s =
     setLoading False
       (case r of
          Resolved (Some xs) \<Rightarrow> setItems xs s
        | Resolved None \<Rightarrow> emit (ConsoleError (js ''Erreur lors de la recherche:'') TypeError) s
        | Rejected e \<Rightarrow> emit (ConsoleError (js ''Erreur lors de la recherche:'') (RequestFailed e)) s)"

definition fetchItems :: "jsstring option \<Rightarrow> (jsstring \<Rightarrow> outcome) \<Rightarrow> filters \<Rightarrow> state \<Rightarrow> state" where
  "fetchItems env backend f s =
     fetchItems_settle (backend (fetch_url env f)) (fetchItems_start env f s)"

subsection \<open>The reaction to a change of \<^verbatim>\<open>location.search\<close>\<close>

definition address_filters :: "jsstring \<Rightarrow> filters" where
  \<comment> \<open>The object \<^verbatim>\<open>{ q, canton, categorie: category }\<close> read from the address.\<close>
  "address_filters search =
     (let params = URLSearchParams_of_string search
      in \<lparr>q = Some (or_empty (params_get params (js ''q''))),
          canton = Some (or_empty (params_get params (js ''canton''))),
          categorie = Some (or_empty (params_get params (js ''categorie''))),
          prix_max = None\<rparr>)"

definition seed_buffers :: "filters \<Rightarrow> state \<Rightarrow> state" where
  "seed_buffers f s =
     setSelectedCategory (or_empty (categorie f))
       (setSelectedCanton (or_empty (canton f))
         (setSearchQuery (or_empty (q f)) s))"

definition searchEffect :: "jsstring option \<Rightarrow> (jsstring \<Rightarrow> outcome) \<Rightarrow> jsstring \<Rightarrow> state \<Rightarrow> state" where
  "searchEffect env backend search s =
     (let f = address_filters search
      in fetchItems env backend f (seed_buffers f s))"

subsection \<open>The form\<close>

definition search_params :: "state \<Rightarrow> URLSearchParams" where
  "search_params s =
     append_nonempty (js ''categorie'') (selectedCategory s)
       (append_nonempty (js ''canton'') (selectedCanton s)
         (append_nonempty (js ''q'') (searchQuery s) []))"

definition handleSearch :: "state \<Rightarrow> state" where
  "handleSearch s =
     emit (Navigate (js ''/search?'' @ params_toString (search_params s))) (emit PreventDefault s)"

definition form_filters :: "state \<Rightarrow> filters" where
  \<comment> \<open>The object passed to \<^verbatim>\<open>fetchItems\<close> by \<^verbatim>\<open>handleFilterSubmit\<close>.\<close>
  "form_filters s =
     \<lparr>q = Some (searchQuery s), canton = Some (selectedCanton s),
      categorie = Some (selectedCategory s), prix_max = Some (maxPrice s)\<rparr>"

text \<open>
  Two filter sets are equivalent when they agree field by field, a missing field counting as
  an empty one.
\<close>

definition equivalent :: "filters \<Rightarrow> filters \<Rightarrow> bool" where
  "equivalent f g \<longleftrightarrow>
     or_empty (q f) = or_empty (q g) \<and> or_empty (canton f) = or_empty (canton g)
     \<and> or_empty (categorie f) = or_empty (categorie g)
     \<and> or_empty (prix_max f) = or_empty (prix_max g)"

definition handleFilterSubmit :: "jsstring option \<Rightarrow> (jsstring \<Rightarrow> outcome) \<Rightarrow> state \<Rightarrow> state" where
  \<comment> \<open>\<^verbatim>\<open>setShowFilters(false)\<close> runs while the request is pending.\<close>
  "handleFilterSubmit env backend s =
     (let f = form_filters s
      in fetchItems_settle (backend (fetch_url env f))
           (setShowFilters False (fetchItems_start env f s)))"

definition resetFilters :: "state \<Rightarrow> state" where
  "resetFilters s = setShowFilters False (setMaxPrice [] (setSelectedCategory [] s))"

definition toggleFilters :: "state \<Rightarrow> state" where
  "toggleFilters s = setShowFilters (\<not> showFilters s) s"

datatype edit =
    EditSearchQuery jsstring
  | EditCanton jsstring
  | EditCategory jsstring
  | EditMaxPrice jsstring

fun onChange :: "edit \<Rightarrow> state \<Rightarrow> state" where
  "onChange (EditSearchQuery v) s = setSearchQuery v s"
| "onChange (EditCanton v) s = setSelectedCanton v s"
| "onChange (EditCategory v) s = setSelectedCategory v s"
| "onChange (EditMaxPrice v) s = setMaxPrice v s"

text \<open>The handlers as the component wires them to what can happen to it.\<close>

datatype action =
    LocationChange jsstring
  | SubmitSearch
  | ApplyFilters
  | ResetFilters
  | ToggleFilters
  | Change edit

fun dispatch :: "jsstring option \<Rightarrow> (jsstring \<Rightarrow> outcome) \<Rightarrow> action \<Rightarrow> state \<Rightarrow> state" where
  "dispatch env backend (LocationChange search) s = searchEffect env backend search s"
| "dispatch env backend SubmitSearch s = handleSearch s"
| "dispatch env backend ApplyFilters s = handleFilterSubmit env backend s"
| "dispatch env backend ResetFilters s = resetFilters s"
| "dispatch env backend ToggleFilters s = toggleFilters s"
| "dispatch env backend (Change e) s = onChange e s"

subsection \<open>\<^verbatim>\<open>ItemCard\<close>\<close>

text \<open>
  A card is modelled by the texts and the image area it renders. Where the source calls a
  function of the language on a value (\<^verbatim>\<open>toUpperCase\<close>, \<^verbatim>\<open>toFixed\<close>, the conversion of a
  number to text), the rendered text keeps the call and its arguments.
\<close>

datatype rendered =
    Lit jsstring
  | UpperCase jsstring
  | Fixed real nat
  | Num real

datatype media = Img jsstring jsstring | Placeholder rendered

record card =
  link :: jsstring
  card_media :: media
  badge :: jsstring
  title :: jsstring
  summary :: jsstring
  place :: jsstring
  price :: "rendered list"
  rating :: rendered
  owner :: jsstring
  fee :: "rendered list"

definition charAt :: "jsstring \<Rightarrow> nat \<Rightarrow> jsstring" where
  \<comment> \<open>\<^verbatim>\<open>s.charAt(i)\<close>: the empty string when \<open>i\<close> is out of range.\<close>
  "charAt s i = (if i < length s then [s ! i] else [])"

definition ItemCard :: "jsstring option \<Rightarrow> item \<Rightarrow> card" where
  "ItemCard env it =
     \<lparr>link = js ''/item/'' @ item_id it,
      card_media =
        (case images it of
           Some (u # us) \<Rightarrow> Img (API_BASE_URL env @ u) (titre it)
         | _ \<Rightarrow> Placeholder (UpperCase (charAt (titre it) 0))),
      badge = item_categorie it,
      title = titre it,
      summary = description it,
      place = ville it @ js '', '' @ item_canton it,
      price = [Num (prix_par_jour it), Lit (js '' CHF'')],
      rating = (if note_moyenne it > 0 then Fixed (note_moyenne it) 1 else Lit (js ''Nouveau'')),
      owner = js ''Par '' @ proprietaire_nom it,
      fee = [Lit (js ''+ ''), Num (frais_inscription it), Lit (js '' CHF frais'')]\<rparr>"

subsection \<open>Concrete inputs\<close>

definition example_state :: state where
  "example_state =
     \<lparr>items = [], loading = False, searchQuery = js ''velo'', selectedCanton = js ''Vaud'',
      selectedCategory = js ''Sport'', maxPrice = js ''50'', showFilters = True, trace = []\<rparr>"

definition example_item :: item where
  "example_item =
     \<lparr>item_id = js ''7'', titre = js ''perceuse'', description = js ''Perceuse a percussion'',
      item_categorie = js ''Outils'', item_canton = js ''Vaud'', ville = js ''Lausanne'',
      prix_par_jour = 12, note_moyenne = 0, proprietaire_nom = js ''Anna'',
      frais_inscription = 5, images = Some []\<rparr>"

definition rejecting_backend :: "jsstring \<Rightarrow> outcome" where
  "rejecting_backend url = Rejected (js ''Network Error'')"

definition empty_backend :: "jsstring \<Rightarrow> outcome" where
  "empty_backend url = Resolved (Some [])"

section \<open>Properties of the query-string functions\<close>

declare split_on.simps [simp del]

lemma hex_value_upper: "d < 16 \<Longrightarrow> hex_value (upper_hex_digit d) = d"
  by (auto simp: hex_value_def upper_hex_digit_def Let_def)

lemma is_hex_upper: "d < 16 \<Longrightarrow> is_hex_digit (upper_hex_digit d)"
  by (auto simp: is_hex_digit_def upper_hex_digit_def Let_def)

lemma upper_hex_not_special: "d < 16 \<Longrightarrow> (of_char (upper_hex_digit d) :: nat) \<notin> {37, 38, 43, 61, 63}"
  by (auto simp: upper_hex_digit_def)

lemma byte_div16: "(of_char (c::char) :: nat) div 16 < 16"
proof -
  have "(of_char c :: nat) < 256" by simp
  then show ?thesis by (simp add: div_less_iff_less_mult)
qed

lemma upper_hex_neq:
  assumes "d < 16"
  shows "upper_hex_digit d \<noteq> CHR ''%''" "upper_hex_digit d \<noteq> CHR ''&''"
        "upper_hex_digit d \<noteq> CHR ''+''" "upper_hex_digit d \<noteq> CHR ''=''"
        "upper_hex_digit d \<noteq> CHR ''?''"
proof -
  have n: "(of_char (upper_hex_digit d) :: nat) \<notin> {37, 38, 43, 61, 63}"
    using assms by (rule upper_hex_not_special)
  show "upper_hex_digit d \<noteq> CHR ''%''" using n by auto
  show "upper_hex_digit d \<noteq> CHR ''&''" using n by auto
  show "upper_hex_digit d \<noteq> CHR ''+''" using n by auto
  show "upper_hex_digit d \<noteq> CHR ''=''" using n by auto
  show "upper_hex_digit d \<noteq> CHR ''?''" using n by auto
qed

lemma percent_decode_encoded_byte:
  "percent_decode (percent_encode_byte c @ r) = c # percent_decode r"
  by (simp add: percent_encode_byte_def is_hex_upper hex_value_upper byte_div16)

lemma plus_to_space_encoded_byte: "plus_to_space (percent_encode_byte c) = percent_encode_byte c"
  by (simp add: plus_to_space_def percent_encode_byte_def byte_div16 upper_hex_neq)

lemma plus_to_space_append: "plus_to_space (a @ b) = plus_to_space a @ plus_to_space b"
  by (simp add: plus_to_space_def)

lemma unreserved_neq:
  assumes "unreserved c"
  shows "c \<noteq> CHR ''%''" "c \<noteq> CHR ''&''" "c \<noteq> CHR ''+''" "c \<noteq> CHR ''=''"
        "c \<noteq> CHR ''?''"
  using assms by (auto simp: unreserved_def)

lemma decode_urlencode_byte:
  "percent_decode (plus_to_space (urlencode_byte c) @ r) = c # percent_decode r"
proof (cases "c = CHR '' ''")
  case True
  then show ?thesis by (simp add: urlencode_byte_def plus_to_space_def)
next
  case False
  show ?thesis
  proof (cases "unreserved c")
    case True
    with False show ?thesis
      by (simp add: urlencode_byte_def plus_to_space_def unreserved_neq)
  next
    case u: False
    with False show ?thesis
      by (simp add: urlencode_byte_def plus_to_space_encoded_byte percent_decode_encoded_byte)
  qed
qed

lemma decode_urlencode: "percent_decode (plus_to_space (urlencode s)) = s"
proof (induction s)
  case Nil
  then show ?case by (simp add: urlencode_def plus_to_space_def)
next
  case (Cons c s)
  have "urlencode (c # s) = urlencode_byte c @ urlencode s" by (simp add: urlencode_def)
  then show ?case using Cons.IH by (simp add: plus_to_space_append decode_urlencode_byte)
qed

lemma urlencode_byte_no_sep:
  "CHR ''&'' \<notin> set (urlencode_byte c)" "CHR ''='' \<notin> set (urlencode_byte c)"
  "CHR ''?'' \<notin> set (urlencode_byte c)"
  using unreserved_neq [of c] upper_hex_neq [of "(of_char c :: nat) div 16"] upper_hex_neq [of "(of_char c :: nat) mod 16"]
  by (auto simp: urlencode_byte_def percent_encode_byte_def byte_div16)

lemma urlencode_no_sep:
  "CHR ''&'' \<notin> set (urlencode s)" "CHR ''='' \<notin> set (urlencode s)"
  "CHR ''?'' \<notin> set (urlencode s)"
  by (auto simp: urlencode_def urlencode_byte_no_sep)

lemma split_on_no_sep: "d \<notin> set s \<Longrightarrow> split_on d s = [s]"
proof -
  assume "d \<notin> set s"
  then have tw: "takeWhile (\<lambda>c. c \<noteq> d) s = s" and dw: "dropWhile (\<lambda>c. c \<noteq> d) s = []"
    by (auto simp: takeWhile_eq_all_conv)
  show ?thesis by (subst split_on.simps) (simp add: tw dw)
qed

lemma split_on_append: "d \<notin> set a \<Longrightarrow> split_on d (a @ d # r) = a # split_on d r"
proof -
  assume "d \<notin> set a"
  then have tw: "takeWhile (\<lambda>c. c \<noteq> d) (a @ d # r) = a"
    and dw: "dropWhile (\<lambda>c. c \<noteq> d) (a @ d # r) = d # r"
    by (auto simp: takeWhile_append dropWhile_append)
  show ?thesis by (subst split_on.simps) (simp add: tw dw)
qed

lemma serialize_pair_props:
  "serialize_pair nv \<noteq> []" "CHR ''&'' \<notin> set (serialize_pair nv)"
  "CHR ''?'' \<notin> set (serialize_pair nv)"
  by (simp_all add: serialize_pair_def urlencode_no_sep)

lemma parse_serialize_pair: "parse_pair (serialize_pair nv) = nv"
proof -
  let ?n = "urlencode (fst nv)" and ?v = "urlencode (snd nv)"
  have "takeWhile (\<lambda>c. c \<noteq> CHR ''='') (?n @ CHR ''='' # ?v) = ?n"
       "dropWhile (\<lambda>c. c \<noteq> CHR ''='') (?n @ CHR ''='' # ?v) = CHR ''='' # ?v"
    using urlencode_no_sep(2) [of "fst nv"] by (auto simp: takeWhile_append dropWhile_append)
  then show ?thesis
    by (simp add: parse_pair_def serialize_pair_def decode_urlencode)
qed

lemma parse_join_amp:
  assumes "\<forall>p \<in> set ps. p \<noteq> [] \<and> CHR ''&'' \<notin> set p"
  shows "filter (\<lambda>b. b \<noteq> []) (split_on (CHR ''&'') (join_amp ps)) = ps"
  using assms
proof (induction ps rule: join_amp.induct)
  case 1
  show ?case by (simp add: split_on_no_sep)
next
  case (2 p)
  then show ?case by (simp add: split_on_no_sep)
next
  case (3 p q ps)
  then show ?case by (simp add: split_on_append)
qed

lemma urlencoded_parse_serialize: "urlencoded_parse (urlencoded_serialize ps) = ps"
proof -
  have "\<forall>p \<in> set (map serialize_pair ps). p \<noteq> [] \<and> CHR ''&'' \<notin> set p"
    by (simp add: serialize_pair_props)
  then have "filter (\<lambda>b. b \<noteq> []) (split_on (CHR ''&'') (join_amp (map serialize_pair ps))) = map serialize_pair ps"
    by (rule parse_join_amp)
  then show ?thesis
    by (simp add: urlencoded_parse_def urlencoded_serialize_def parse_serialize_pair comp_def)
qed

lemma join_amp_no_question:
  "\<forall>p \<in> set ps. CHR ''?'' \<notin> set p \<Longrightarrow> CHR ''?'' \<notin> set (join_amp ps)"
  by (induction ps rule: join_amp.induct) auto

lemma serialize_no_question: "CHR ''?'' \<notin> set (urlencoded_serialize ps)"
  by (simp add: urlencoded_serialize_def join_amp_no_question serialize_pair_props)

subsection \<open>UTF-8 and UTF-16\<close>

declare utf8_decoder.simps [simp del]

lemma decoder_single:
  "b < 0x80 \<Longrightarrow> utf8_decoder 0 0 0x80 0xBF (char_of b # r) = b # utf8_decoder 0 0 0x80 0xBF r"
  by (simp add: utf8_decoder.simps)

lemma decoder_lead2:
  "0xC2 \<le> b \<Longrightarrow> b \<le> 0xDF \<Longrightarrow>
   utf8_decoder 0 0 0x80 0xBF (char_of b # r) = utf8_decoder (b mod 32) 1 0x80 0xBF r"
  by (simp add: utf8_decoder.simps)

lemma decoder_lead3:
  "0xE0 \<le> b \<Longrightarrow> b \<le> 0xEF \<Longrightarrow>
   utf8_decoder 0 0 0x80 0xBF (char_of b # r) =
     utf8_decoder (b mod 16) 2 (if b = 0xE0 then 0xA0 else 0x80) (if b = 0xED then 0x9F else 0xBF) r"
  by (simp add: utf8_decoder.simps)

lemma decoder_lead4:
  "0xF0 \<le> b \<Longrightarrow> b \<le> 0xF4 \<Longrightarrow>
   utf8_decoder 0 0 0x80 0xBF (char_of b # r) =
     utf8_decoder (b mod 8) 3 (if b = 0xF0 then 0x90 else 0x80) (if b = 0xF4 then 0x8F else 0xBF) r"
  by (simp add: utf8_decoder.simps)

lemma decoder_last:
  "lower \<le> b \<Longrightarrow> b \<le> upper \<Longrightarrow> b < 256 \<Longrightarrow>
   utf8_decoder cp 1 lower upper (char_of b # r) = (cp * 64 + b mod 64) # utf8_decoder 0 0 0x80 0xBF r"
  by (simp add: utf8_decoder.simps)

lemma decoder_more:
  "lower \<le> b \<Longrightarrow> b \<le> upper \<Longrightarrow> b < 256 \<Longrightarrow> needed = 2 \<or> needed = 3 \<Longrightarrow>
   utf8_decoder cp needed lower upper (char_of b # r) =
     utf8_decoder (cp * 64 + b mod 64) (needed - 1) 0x80 0xBF r"
  by (auto simp add: utf8_decoder.simps)

lemma lead2:
  assumes "2 \<le> a" "a < 32"
  shows "utf8_decoder 0 0 0x80 0xBF (char_of (0xC0 + a) # r) = utf8_decoder a 1 0x80 0xBF r"
proof -
  have m: "(0xC0 + a) mod 32 = a" using assms(2) mod_mult_self4 [of 32 6 a] by simp
  have 1: "0xC2 \<le> 0xC0 + a" and 2: "0xC0 + a \<le> 0xDF" using assms by linarith+
  show ?thesis using decoder_lead2 [OF 1 2, of r] by (simp only: m)
qed

lemma lead3:
  assumes "a < 16"
  shows "utf8_decoder 0 0 0x80 0xBF (char_of (0xE0 + a) # r) =
           utf8_decoder a 2 (if a = 0 then 0xA0 else 0x80) (if a = 13 then 0x9F else 0xBF) r"
proof -
  have m: "(0xE0 + a) mod 16 = a" using assms mod_mult_self4 [of 16 14 a] by simp
  have 1: "0xE0 \<le> 0xE0 + a" and 2: "0xE0 + a \<le> 0xEF" using assms by linarith+
  have c: "(0xE0 + a = 0xE0) = (a = 0)" "(0xE0 + a = 0xED) = (a = 13)" by linarith+
  show ?thesis using decoder_lead3 [OF 1 2, of r] by (simp only: m c)
qed

lemma lead4:
  assumes "a < 5"
  shows "utf8_decoder 0 0 0x80 0xBF (char_of (0xF0 + a) # r) =
           utf8_decoder a 3 (if a = 0 then 0x90 else 0x80) (if a = 4 then 0x8F else 0xBF) r"
proof -
  have m: "(0xF0 + a) mod 8 = a" using assms mod_mult_self4 [of 8 30 a] by simp
  have 1: "0xF0 \<le> 0xF0 + a" and 2: "0xF0 + a \<le> 0xF4" using assms by linarith+
  have c: "(0xF0 + a = 0xF0) = (a = 0)" "(0xF0 + a = 0xF4) = (a = 4)" by linarith+
  show ?thesis using decoder_lead4 [OF 1 2, of r] by (simp only: m c)
qed

lemma cont_last:
  assumes "l < 64" "lower \<le> 0x80 + l" "0x80 + l \<le> upper"
  shows "utf8_decoder cp 1 lower upper (char_of (0x80 + l) # r) =
           (cp * 64 + l) # utf8_decoder 0 0 0x80 0xBF r"
proof -
  have m: "(0x80 + l) mod 64 = l" using assms(1) mod_mult_self4 [of 64 2 l] by simp
  have b: "0x80 + l < 256" using assms(1) by linarith
  show ?thesis using decoder_last [OF assms(2) assms(3) b, of cp r] by (simp only: m)
qed

lemma cont_more:
  assumes "l < 64" "lower \<le> 0x80 + l" "0x80 + l \<le> upper" "needed = 2 \<or> needed = 3"
  shows "utf8_decoder cp needed lower upper (char_of (0x80 + l) # r) =
           utf8_decoder (cp * 64 + l) (needed - 1) 0x80 0xBF r"
proof -
  have m: "(0x80 + l) mod 64 = l" using assms(1) mod_mult_self4 [of 64 2 l] by simp
  have b: "0x80 + l < 256" using assms(1) by linarith
  show ?thesis using decoder_more [OF assms(2) assms(3) b assms(4), of cp r] by (simp only: m)
qed

lemma decode_encode_1:
  assumes "cp < 0x80"
  shows "utf8_decoder 0 0 0x80 0xBF (utf8_encode_code_point cp @ r) = cp # utf8_decoder 0 0 0x80 0xBF r"
proof -
  have "utf8_encode_code_point cp = [char_of cp]"
    using assms unfolding utf8_encode_code_point_def by (simp only: if_True)
  then show ?thesis using decoder_single [OF assms, of r] by (simp only: append_Cons append_Nil)
qed

lemma decode_encode_2:
  assumes "0x80 \<le> cp" "cp < 0x800"
  shows "utf8_decoder 0 0 0x80 0xBF (utf8_encode_code_point cp @ r) = cp # utf8_decoder 0 0 0x80 0xBF r"
proof -
  define a l where "a = cp div 64" and "l = cp mod 64"
  have cp: "a * 64 + l = cp" unfolding a_def l_def by (rule div_mult_mod_eq)
  have l: "l < 64" unfolding l_def by (rule mod_less_divisor) simp
  have a: "2 \<le> a" "a < 32" using assms cp l by linarith+
  have n: "\<not> cp < 0x80" using assms by linarith
  have e: "utf8_encode_code_point cp = [char_of (0xC0 + a), char_of (0x80 + l)]"
    using n assms(2) unfolding utf8_encode_code_point_def a_def l_def by (simp only: if_True if_False)
  have "utf8_decoder 0 0 0x80 0xBF (char_of (0xC0 + a) # char_of (0x80 + l) # r)
          = utf8_decoder a 1 0x80 0xBF (char_of (0x80 + l) # r)"
    using a by (rule lead2)
  also have "\<dots> = (a * 64 + l) # utf8_decoder 0 0 0x80 0xBF r"
    by (rule cont_last [OF l]) (use l in linarith)+
  finally show ?thesis by (simp only: e cp append_Cons append_Nil)
qed

lemma decode_encode_3:
  assumes "0x800 \<le> cp" "cp < 0x10000" "\<not> (0xD800 \<le> cp \<and> cp \<le> 0xDFFF)"
  shows "utf8_decoder 0 0 0x80 0xBF (utf8_encode_code_point cp @ r) = cp # utf8_decoder 0 0 0x80 0xBF r"
proof -
  define d a m l where "d = cp div 64" and "a = cp div 4096" and "m = cp div 64 mod 64" and "l = cp mod 64"
  have 1: "d * 64 + l = cp" unfolding d_def l_def by (rule div_mult_mod_eq)
  have "d div 64 * 64 + d mod 64 = d" by (rule div_mult_mod_eq)
  moreover have "d div 64 = a" unfolding d_def a_def by (simp add: div_mult2_eq [symmetric])
  ultimately have 2: "a * 64 + m = d" unfolding m_def d_def by simp
  have l: "l < 64" unfolding l_def by (rule mod_less_divisor) simp
  have m: "m < 64" unfolding m_def by (rule mod_less_divisor) simp
  have cp: "(a * 64 + m) * 64 + l = cp" using 1 2 by simp
  have a: "a < 16" using assms 1 2 l m by linarith
  have lo: "a = 0 \<Longrightarrow> 32 \<le> m" using assms 1 2 l by linarith
  have hi: "a = 13 \<Longrightarrow> m < 32" using assms 1 2 l m by linarith
  have n: "\<not> cp < 0x80" "\<not> cp < 0x800" using assms by linarith+
  have e: "utf8_encode_code_point cp = [char_of (0xE0 + a), char_of (0x80 + m), char_of (0x80 + l)]"
    using n assms(2) unfolding utf8_encode_code_point_def a_def m_def l_def by (simp only: if_True if_False)
  have "utf8_decoder 0 0 0x80 0xBF (char_of (0xE0 + a) # char_of (0x80 + m) # char_of (0x80 + l) # r)
          = utf8_decoder a 2 (if a = 0 then 0xA0 else 0x80) (if a = 13 then 0x9F else 0xBF)
              (char_of (0x80 + m) # char_of (0x80 + l) # r)"
    using a by (rule lead3)
  also have "\<dots> = utf8_decoder (a * 64 + m) (2 - 1) 0x80 0xBF (char_of (0x80 + l) # r)"
  proof (rule cont_more)
    show "m < 64" by (rule m)
    show "(if a = 0 then 0xA0 else 0x80) \<le> 0x80 + m" using lo by (cases "a = 0") simp_all
    show "0x80 + m \<le> (if a = 13 then 0x9F else 0xBF)" using hi m by (cases "a = 13") simp_all
    show "(2::nat) = 2 \<or> (2::nat) = 3" by simp
  qed
  also have "\<dots> = utf8_decoder (a * 64 + m) 1 0x80 0xBF (char_of (0x80 + l) # r)" by simp
  also have "\<dots> = ((a * 64 + m) * 64 + l) # utf8_decoder 0 0 0x80 0xBF r"
    by (rule cont_last [OF l]) (use l in linarith)+
  finally show ?thesis by (simp only: e cp append_Cons append_Nil)
qed

lemma decode_encode_4:
  assumes "0x10000 \<le> cp" "cp < 0x110000"
  shows "utf8_decoder 0 0 0x80 0xBF (utf8_encode_code_point cp @ r) = cp # utf8_decoder 0 0 0x80 0xBF r"
proof -
  define d e a m k l where "d = cp div 64" and "e = cp div 4096" and "a = cp div 262144"
    and "m = cp div 4096 mod 64" and "k = cp div 64 mod 64" and "l = cp mod 64"
  have 1: "d * 64 + l = cp" unfolding d_def l_def by (rule div_mult_mod_eq)
  have "d div 64 * 64 + d mod 64 = d" by (rule div_mult_mod_eq)
  moreover have "d div 64 = e" unfolding d_def e_def by (simp add: div_mult2_eq [symmetric])
  ultimately have 2: "e * 64 + k = d" unfolding k_def d_def by simp
  have "e div 64 * 64 + e mod 64 = e" by (rule div_mult_mod_eq)
  moreover have "e div 64 = a" unfolding e_def a_def by (simp add: div_mult2_eq [symmetric])
  ultimately have 3: "a * 64 + m = e" unfolding m_def e_def by simp
  have l: "l < 64" unfolding l_def by (rule mod_less_divisor) simp
  have k: "k < 64" unfolding k_def by (rule mod_less_divisor) simp
  have m: "m < 64" unfolding m_def by (rule mod_less_divisor) simp
  have cp: "((a * 64 + m) * 64 + k) * 64 + l = cp" using 1 2 3 by simp
  have a: "a < 5" using assms 1 2 3 l k m by linarith
  have lo: "a = 0 \<Longrightarrow> 16 \<le> m" using assms 1 2 3 l k by linarith
  have hi: "a = 4 \<Longrightarrow> m < 16" using assms 1 2 3 l k m by linarith
  have n: "\<not> cp < 0x80" "\<not> cp < 0x800" "\<not> cp < 0x10000" using assms by linarith+
  have enc: "utf8_encode_code_point cp =
      [char_of (0xF0 + a), char_of (0x80 + m), char_of (0x80 + k), char_of (0x80 + l)]"
    using n unfolding utf8_encode_code_point_def a_def m_def k_def l_def by (simp only: if_False)
  have "utf8_decoder 0 0 0x80 0xBF
          (char_of (0xF0 + a) # char_of (0x80 + m) # char_of (0x80 + k) # char_of (0x80 + l) # r)
          = utf8_decoder a 3 (if a = 0 then 0x90 else 0x80) (if a = 4 then 0x8F else 0xBF)
              (char_of (0x80 + m) # char_of (0x80 + k) # char_of (0x80 + l) # r)"
    using a by (rule lead4)
  also have "\<dots> = utf8_decoder (a * 64 + m) (3 - 1) 0x80 0xBF
                        (char_of (0x80 + k) # char_of (0x80 + l) # r)"
  proof (rule cont_more)
    show "m < 64" by (rule m)
    show "(if a = 0 then 0x90 else 0x80) \<le> 0x80 + m" using lo by (cases "a = 0") simp_all
    show "0x80 + m \<le> (if a = 4 then 0x8F else 0xBF)" using hi m by (cases "a = 4") simp_all
    show "(3::nat) = 2 \<or> (3::nat) = 3" by simp
  qed
  also have "\<dots> = utf8_decoder (a * 64 + m) 2 0x80 0xBF
                        (char_of (0x80 + k) # char_of (0x80 + l) # r)" by simp
  also have "\<dots> = utf8_decoder ((a * 64 + m) * 64 + k) (2 - 1) 0x80 0xBF (char_of (0x80 + l) # r)"
    by (rule cont_more [OF k]) (use k in simp_all)
  also have "\<dots> = utf8_decoder ((a * 64 + m) * 64 + k) 1 0x80 0xBF (char_of (0x80 + l) # r)" by simp
  also have "\<dots> = (((a * 64 + m) * 64 + k) * 64 + l) # utf8_decoder 0 0 0x80 0xBF r"
    by (rule cont_last [OF l]) (use l in linarith)+
  finally show ?thesis by (simp only: enc cp append_Cons append_Nil)
qed

lemma decode_encode_code_point:
  assumes "is_scalar cp"
  shows "utf8_decoder 0 0 0x80 0xBF (utf8_encode_code_point cp @ r) = cp # utf8_decoder 0 0 0x80 0xBF r"
proof -
  consider "cp < 0x80" | "0x80 \<le> cp" "cp < 0x800" | "0x800 \<le> cp" "cp < 0x10000"
    | "0x10000 \<le> cp" by linarith
  then show ?thesis
  proof cases
    case 1 then show ?thesis by (rule decode_encode_1)
  next
    case 2 then show ?thesis by (rule decode_encode_2)
  next
    case 3
    moreover have "\<not> (0xD800 \<le> cp \<and> cp \<le> 0xDFFF)" using assms by (simp add: is_scalar_def)
    ultimately show ?thesis by (rule decode_encode_3)
  next
    case 4
    moreover have "cp < 0x110000" using assms by (simp add: is_scalar_def)
    ultimately show ?thesis by (rule decode_encode_4)
  qed
qed

lemma decode_encode_code_points:
  "\<forall>cp \<in> set cps. is_scalar cp \<Longrightarrow>
   utf8_decoder 0 0 0x80 0xBF (concat (map utf8_encode_code_point cps)) = cps"
proof (induction cps)
  case Nil
  show ?case by (simp add: utf8_decoder.simps)
next
  case (Cons cp cps)
  then have "is_scalar cp" and "utf8_decoder 0 0 0x80 0xBF (concat (map utf8_encode_code_point cps)) = cps"
    by simp_all
  then show ?case using decode_encode_code_point [of cp "concat (map utf8_encode_code_point cps)"]
    by simp
qed

lemma unat_unit: "unat (w :: 16 word) < 65536"
  using unsigned_less [of w, where 'a = nat] by simp

lemma unat_of_small: "n < 65536 \<Longrightarrow> unat (of_nat n :: 16 word) = n"
  by (simp add: unat_of_nat)

lemma scalar_values_plain:
  "\<not> is_high u \<Longrightarrow> \<not> is_low u \<Longrightarrow> scalar_values (u # r) = unat u # scalar_values r"
  by (cases r) simp_all

lemma scalar_values_pair:
  "is_high u \<Longrightarrow> is_low v \<Longrightarrow>
   scalar_values (u # v # r) = (0x10000 + (unat u - 0xD800) * 0x400 + (unat v - 0xDC00)) # scalar_values r"
  by simp

lemma pair_is_scalar:
  assumes "is_high u" "is_low v"
  shows "is_scalar (0x10000 + (unat u - 0xD800) * 0x400 + (unat v - 0xDC00))"
proof -
  define x y where "x = unat u - 0xD800" and "y = unat v - 0xDC00"
  have "x < 0x400" "y < 0x400" using assms unfolding x_def y_def is_high_def is_low_def by linarith+
  then have "0x10000 + x * 0x400 + y < 0x110000" "0xDFFF < 0x10000 + x * 0x400 + y" by linarith+
  then show ?thesis unfolding is_scalar_def x_def y_def by simp
qed

lemma plain_is_scalar:
  "\<not> is_high u \<Longrightarrow> \<not> is_low u \<Longrightarrow> is_scalar (unat u)"
  using unat_unit [of u] unfolding is_scalar_def is_high_def is_low_def by linarith

lemma replacement_is_scalar: "is_scalar 0xFFFD"
  by (simp add: is_scalar_def)

lemma scalar_values_scalar: "\<forall>cp \<in> set (scalar_values s). is_scalar cp"
proof (induction s rule: scalar_values.induct)
  case 1
  show ?case by simp
next
  case (2 u)
  show ?case using plain_is_scalar [of u] replacement_is_scalar by simp
next
  case (3 u v r)
  show ?case
  proof (cases "is_high u \<and> is_low v")
    case True
    then show ?thesis using 3(1) pair_is_scalar [of u v] by simp
  next
    case False
    show ?thesis
    proof (cases "is_high u \<or> is_low u")
      case True
      with False show ?thesis using 3(2) replacement_is_scalar by auto
    next
      case False
      then have "scalar_values (u # v # r) = unat u # scalar_values (v # r)"
        by (simp add: scalar_values_plain)
      moreover have "\<forall>cp \<in> set (scalar_values (v # r)). is_scalar cp"
        using 3(3) False by simp
      ultimately show ?thesis using plain_is_scalar [of u] False by simp
    qed
  qed
qed

lemma utf8_decoder_encode: "utf8_decoder 0 0 0x80 0xBF (utf8_encode s) = scalar_values s"
  unfolding utf8_encode_def by (rule decode_encode_code_points) (rule scalar_values_scalar)

lemma utf8_decode_encode: "utf8_decode (utf8_encode s) = usv s"
  by (simp add: utf8_decode_def usv_def utf8_decoder_encode)

lemma utf16_plain: "utf16_encode_code_point (unat u) = [u]"
  using unat_unit [of u] by (simp add: utf16_encode_code_point_def)

lemma utf16_pair:
  assumes "is_high u" "is_low v"
  shows "utf16_encode_code_point (0x10000 + (unat u - 0xD800) * 0x400 + (unat v - 0xDC00)) = [u, v]"
proof -
  define x y where "x = unat u - 0xD800" and "y = unat v - 0xDC00"
  have y: "y < 0x400" using assms unfolding y_def is_low_def by linarith
  have u: "0xD800 + x = unat u" using assms unfolding x_def is_high_def by linarith
  have v: "0xDC00 + y = unat v" using assms unfolding y_def is_low_def by linarith
  have c: "\<not> 0x10000 + x * 0x400 + y < 0x10000" by linarith
  have d: "(0x10000 + x * 0x400 + y - 0x10000) div 0x400 = x" using y by simp
  have m: "(0x10000 + x * 0x400 + y - 0x10000) mod 0x400 = y" using y by simp
  have "utf16_encode_code_point (0x10000 + x * 0x400 + y) = [of_nat (0xD800 + x), of_nat (0xDC00 + y)]"
    unfolding utf16_encode_code_point_def using c by (simp only: d m if_False)
  then show ?thesis unfolding u v x_def [symmetric] y_def [symmetric] by simp
qed

lemma utf16_Cons: "utf16_encode (cp # cps) = utf16_encode_code_point cp @ utf16_encode cps"
  by (simp add: utf16_encode_def)

lemma usv_well_formed: "well_formed s \<Longrightarrow> usv s = s"
proof (induction s rule: well_formed.induct)
  case 1
  show ?case by (simp add: usv_def utf16_encode_def)
next
  case (2 u)
  then show ?case by (simp add: usv_def utf16_Cons utf16_plain) (simp add: utf16_encode_def)
next
  case (3 u v r)
  show ?case
  proof (cases "is_high u")
    case True
    with 3 have lv: "is_low v" and wr: "well_formed r" and ih: "usv r = r" by simp_all
    have "scalar_values (u # v # r) =
            (0x10000 + (unat u - 0xD800) * 0x400 + (unat v - 0xDC00)) # scalar_values r"
      using True lv by (rule scalar_values_pair)
    then show ?thesis using ih utf16_pair [OF True lv] by (simp only: usv_def utf16_Cons append_Cons append_Nil)
  next
    case False
    with 3 have nl: "\<not> is_low u" and ih: "usv (v # r) = v # r" by simp_all
    have "scalar_values (u # v # r) = unat u # scalar_values (v # r)"
      using False nl by (rule scalar_values_plain)
    then show ?thesis using ih utf16_plain [of u] by (simp only: usv_def utf16_Cons append_Cons append_Nil)
  qed
qed

lemma utf16_code_point_not_Nil: "utf16_encode_code_point cp \<noteq> []"
  by (simp add: utf16_encode_code_point_def)

lemma scalar_values_Nil_iff: "scalar_values s = [] \<longleftrightarrow> s = []"
  by (induction s rule: scalar_values.induct) simp_all

lemma usv_Nil_iff: "usv s = [] \<longleftrightarrow> s = []"
proof -
  have "utf16_encode cps = [] \<longleftrightarrow> cps = []" for cps
    by (cases cps) (simp_all add: utf16_encode_def utf16_code_point_not_Nil)
  then show ?thesis by (simp add: usv_def scalar_values_Nil_iff)
qed

lemma js_Nil: "js [] = []"
  by (simp add: js_def)

lemma js_Cons: "js (c # s) = of_nat (of_char c) # js s"
  by (simp add: js_def)

lemma js_append: "js (a @ b) = js a @ js b"
  by (simp add: js_def)

lemma js_Nil_iff: "js s = [] \<longleftrightarrow> s = []"
  by (simp add: js_def)

lemma unat_js_unit: "unat (of_nat (of_char c) :: 16 word) = of_char c"
proof -
  have "(of_char c :: nat) < 256" by simp
  then have "(of_char c :: nat) < 65536" by linarith
  then show ?thesis by (rule unat_of_small)
qed

lemma js_unit_inject: "(of_nat (of_char c) :: 16 word) = of_nat (of_char d) \<longleftrightarrow> c = d"
proof
  assume "(of_nat (of_char c) :: 16 word) = of_nat (of_char d)"
  then have "unat (of_nat (of_char c) :: 16 word) = unat (of_nat (of_char d) :: 16 word)" by simp
  then have "(of_char c :: nat) = of_char d" by (simp only: unat_js_unit)
  then show "c = d" by simp
qed simp

lemma js_inject: "js a = js b \<longleftrightarrow> a = b"
proof (induction a arbitrary: b)
  case Nil
  show ?case by (cases b) (simp_all add: js_def)
next
  case (Cons c a)
  show ?case
  proof (cases b)
    case Nil
    then show ?thesis by (simp add: js_def)
  next
    case (Cons d b')
    then show ?thesis using Cons.IH [of b'] by (simp add: js_Cons js_unit_inject)
  qed
qed

lemma ascii_simps:
  "ascii []" "ascii (c # s) \<longleftrightarrow> (of_char c :: nat) < 128 \<and> ascii s"
  "ascii (a @ b) \<longleftrightarrow> ascii a \<and> ascii b"
  by (auto simp: ascii_def)

lemma not_surrogate_ascii:
  assumes "(of_char c :: nat) < 128"
  shows "\<not> is_high (of_nat (of_char c))" "\<not> is_low (of_nat (of_char c))"
  using assms unfolding is_high_def is_low_def unat_js_unit by linarith+

lemma scalar_values_ascii: "ascii bs \<Longrightarrow> scalar_values (js bs) = map of_char bs"
proof (induction bs)
  case Nil
  show ?case by (simp add: js_def)
next
  case (Cons c bs)
  then have c: "(of_char c :: nat) < 128" and bs: "scalar_values (js bs) = map of_char bs"
    by (simp_all add: ascii_simps)
  have "scalar_values (of_nat (of_char c) # js bs) = unat (of_nat (of_char c) :: 16 word) # scalar_values (js bs)"
    using not_surrogate_ascii [OF c] by (rule scalar_values_plain)
  then show ?case by (simp only: js_Cons bs unat_js_unit list.map)
qed

lemma utf8_encode_code_point_ascii:
  "(of_char c :: nat) < 128 \<Longrightarrow> utf8_encode_code_point (of_char c) = [c]"
  unfolding utf8_encode_code_point_def by simp

lemma utf8_encode_ascii: "ascii bs \<Longrightarrow> utf8_encode (js bs) = bs"
proof -
  assume a: "ascii bs"
  then have "concat (map utf8_encode_code_point (map of_char bs)) = bs"
    by (induction bs) (simp_all add: ascii_simps utf8_encode_code_point_ascii)
  then show ?thesis using a by (simp add: utf8_encode_def scalar_values_ascii)
qed

lemma utf8_decoder_ascii: "ascii bs \<Longrightarrow> utf8_decoder 0 0 0x80 0xBF bs = map of_char bs"
proof (induction bs)
  case Nil
  show ?case by (simp add: utf8_decoder.simps)
next
  case (Cons c bs)
  then have c: "(of_char c :: nat) < 0x80" and bs: "utf8_decoder 0 0 0x80 0xBF bs = map of_char bs"
    by (simp_all add: ascii_simps)
  have "utf8_decoder 0 0 0x80 0xBF (char_of (of_char c :: nat) # bs) = of_char c # utf8_decoder 0 0 0x80 0xBF bs"
    using c by (rule decoder_single)
  then show ?case by (simp add: bs)
qed

lemma utf16_encode_small: "\<forall>n \<in> set ns. n < 0x10000 \<Longrightarrow> utf16_encode ns = map of_nat ns"
  by (induction ns) (simp_all add: utf16_encode_def utf16_encode_code_point_def)

lemma utf16_encode_bytes: "utf16_encode (map of_char bs) = js bs"
proof -
  have "\<forall>n \<in> set (map of_char bs). n < (0x10000 :: nat)"
  proof
    fix n :: nat assume "n \<in> set (map of_char bs)"
    then obtain c :: char where "n = of_char c" by auto
    moreover have "(of_char c :: nat) < 256" by simp
    ultimately show "n < 0x10000" by linarith
  qed
  then have "utf16_encode (map of_char bs) = map of_nat (map of_char bs)"
    by (rule utf16_encode_small)
  then show ?thesis by (simp add: js_def)
qed

lemma utf8_decode_ascii: "ascii bs \<Longrightarrow> utf8_decode bs = js bs"
  by (simp add: utf8_decode_def utf8_decoder_ascii utf16_encode_bytes)

lemma usv_ascii: "ascii bs \<Longrightarrow> usv (js bs) = js bs"
  by (simp add: usv_def scalar_values_ascii utf16_encode_bytes)

subsection \<open>\<^verbatim>\<open>URLSearchParams\<close> on strings\<close>

lemma ascii_upper_hex: "d < 16 \<Longrightarrow> (of_char (upper_hex_digit d) :: nat) < 128"
  by (simp add: upper_hex_digit_def)

lemma ascii_unreserved: "unreserved c \<Longrightarrow> (of_char c :: nat) < 128"
  by (auto simp: unreserved_def Let_def)

lemma ascii_urlencode_byte: "ascii (urlencode_byte c)"
proof -
  have "(of_char c :: nat) mod 16 < 16" by simp
  then show ?thesis
    by (simp add: urlencode_byte_def percent_encode_byte_def ascii_simps ascii_upper_hex
        ascii_unreserved byte_div16)
qed

lemma ascii_urlencode: "ascii (urlencode s)"
  using ascii_urlencode_byte by (auto simp: urlencode_def ascii_def)

lemma ascii_serialize_pair: "ascii (serialize_pair nv)"
  by (simp add: serialize_pair_def ascii_simps ascii_urlencode)

lemma ascii_join_amp: "\<forall>p \<in> set ps. ascii p \<Longrightarrow> ascii (join_amp ps)"
  by (induction ps rule: join_amp.induct) (simp_all add: ascii_simps)

lemma ascii_serialize: "ascii (urlencoded_serialize ps)"
  by (simp add: urlencoded_serialize_def ascii_join_amp ascii_serialize_pair)

lemma URLSearchParams_of_ascii_query:
  assumes "ascii bs"
  shows "URLSearchParams_of_string (js (CHR ''?'' # bs)) =
           map (\<lambda>(name, v). (utf8_decode name, utf8_decode v)) (urlencoded_parse bs)"
  using assms by (simp add: URLSearchParams_of_string_def js_Cons utf8_encode_ascii)

lemma URLSearchParams_of_ascii:
  assumes "ascii bs" "CHR ''?'' \<notin> set bs"
  shows "URLSearchParams_of_string (js bs) =
           map (\<lambda>(name, v). (utf8_decode name, utf8_decode v)) (urlencoded_parse bs)"
proof (cases bs)
  case Nil
  then show ?thesis by (simp add: URLSearchParams_of_string_def js_Nil utf8_encode_def)
next
  case (Cons c r)
  with assms(2) have "c \<noteq> CHR ''?''" by auto
  then have "(of_nat (of_char c) :: 16 word) \<noteq> of_nat (of_char CHR ''?'')"
    by (simp only: js_unit_inject not_False_eq_True)
  then have n: "(of_nat (of_char c) :: 16 word) \<noteq> 0x3F" by simp
  have "utf8_encode (js (c # r)) = c # r" using assms(1) Cons by (simp add: utf8_encode_ascii)
  then show ?thesis using n Cons by (simp add: URLSearchParams_of_string_def js_Cons)
qed

lemma decode_encode_pairs:
  "map (\<lambda>(name, v). (utf8_decode name, utf8_decode v))
     (map (\<lambda>(name, v). (utf8_encode name, utf8_encode v)) ps) =
   map (\<lambda>(name, v). (usv name, usv v)) ps"
  by (induction ps) (auto simp: utf8_decode_encode)

lemma URLSearchParams_of_query:
  "URLSearchParams_of_string (js ''?'' @ params_toString ps) = map (\<lambda>(name, v). (usv name, usv v)) ps"
proof -
  let ?bps = "map (\<lambda>(name, v). (utf8_encode name, utf8_encode v)) ps"
  have e: "js ''?'' @ params_toString ps = js (CHR ''?'' # urlencoded_serialize ?bps)"
    by (simp add: params_toString_def js_def)
  have p: "urlencoded_parse (urlencoded_serialize ?bps) = ?bps"
    by (rule urlencoded_parse_serialize)
  have "URLSearchParams_of_string (js (CHR ''?'' # urlencoded_serialize ?bps)) =
          map (\<lambda>(name, v). (utf8_decode name, utf8_decode v)) (urlencoded_parse (urlencoded_serialize ?bps))"
    by (rule URLSearchParams_of_ascii_query [OF ascii_serialize])
  then show ?thesis by (simp only: e p decode_encode_pairs)
qed

lemma URLSearchParams_of_serialized:
  "URLSearchParams_of_string (params_toString ps) = map (\<lambda>(name, v). (usv name, usv v)) ps"
proof -
  let ?bps = "map (\<lambda>(name, v). (utf8_encode name, utf8_encode v)) ps"
  have p: "urlencoded_parse (urlencoded_serialize ?bps) = ?bps"
    by (rule urlencoded_parse_serialize)
  have "URLSearchParams_of_string (js (urlencoded_serialize ?bps)) =
          map (\<lambda>(name, v). (utf8_decode name, utf8_decode v)) (urlencoded_parse (urlencoded_serialize ?bps))"
    by (rule URLSearchParams_of_ascii [OF ascii_serialize serialize_no_question])
  then show ?thesis by (simp only: params_toString_def p decode_encode_pairs)
qed

lemma params_toString_ascii:
  "\<forall>nv \<in> set bps. ascii (fst nv) \<and> ascii (snd nv) \<Longrightarrow>
   params_toString (map (\<lambda>(name, v). (js name, js v)) bps) = js (urlencoded_serialize bps)"
proof -
  assume a: "\<forall>nv \<in> set bps. ascii (fst nv) \<and> ascii (snd nv)"
  then have "map (\<lambda>(name, v). (utf8_encode name, utf8_encode v)) (map (\<lambda>(name, v). (js name, js v)) bps) = bps"
    by (induction bps) (auto simp: utf8_encode_ascii)
  then show ?thesis by (simp add: params_toString_def)
qed

text \<open>
  An escape that is not UTF-8 is decoded to U+FFFD: the address \<^verbatim>\<open>?q=%FF\<close> holds the
  one-unit string U+FFFD under \<^verbatim>\<open>q\<close>.
\<close>

lemma parse_ill_formed_escape:
  "URLSearchParams_of_string (js ''?q=%FF'') = [(js ''q'', [0xFFFD])]"
proof -
  have "urlencoded_parse ''q=%FF'' = [(''q'', [CHR 0xFF])]" by code_simp
  moreover have "utf8_decode [CHR 0xFF] = [0xFFFD]"
    by (simp add: utf8_decode_def utf8_decoder.simps utf16_encode_def utf16_encode_code_point_def)
  ultimately show ?thesis
    using URLSearchParams_of_ascii_query [of "''q=%FF''"]
    by (simp add: ascii_def utf8_decode_ascii)
qed

section \<open>Properties of the search page\<close>

lemmas setters = emit_def setItems_def setLoading_def setSearchQuery_def setSelectedCanton_def
  setSelectedCategory_def setMaxPrice_def setShowFilters_def

lemma requests_of_append: "requests_of (xs @ ys) = requests_of xs @ requests_of ys"
  by (induction xs rule: requests_of.induct) simp_all

lemma navigations_of_append: "navigations_of (xs @ ys) = navigations_of xs @ navigations_of ys"
  by (induction xs rule: navigations_of.induct) simp_all

lemma trace_fetchItems_start:
  "trace (fetchItems_start env f s) = trace s @ [SetLoading True, AxiosGet (fetch_url env f)]"
  by (simp add: fetchItems_start_def setters)

lemma settle_event:
  "\<exists>ev. trace (fetchItems_settle r s) = trace s @ [ev, SetLoading False] \<and> (\<forall>b. ev \<noteq> SetLoading b)
     \<and> (\<forall>u. ev \<noteq> AxiosGet u) \<and> (\<forall>t. ev \<noteq> Navigate t)"
  by (simp add: fetchItems_settle_def setters split: outcome.split option.split)

lemma settle_rejected:
  "fetchItems_settle (Rejected e) s =
     s\<lparr>loading := False,
        trace := trace s @ [ConsoleError (js ''Erreur lors de la recherche:'') (RequestFailed e),
                           SetLoading False]\<rparr>"
  by (simp add: fetchItems_settle_def setters)

lemma start_state:
  "fetchItems_start env f s =
     s\<lparr>loading := True, trace := trace s @ [SetLoading True, AxiosGet (fetch_url env f)]\<rparr>"
  by (simp add: fetchItems_start_def setters)

lemma seed_buffers_items:
  "items (seed_buffers f s) = items s"
  by (simp add: seed_buffers_def setters)

text \<open>
  Claim C5. A rejected request is settled, at whatever state the component is in by then, by
  logging the error and setting \<open>loading\<close> to \<open>False\<close>: every other field, the items among
  them, is left as it was. The start of a fetch leaves the items alone too. So each of the
  calls of \<^verbatim>\<open>fetchItems\<close> (taken alone, from the apply-filters action, which closes the
  panel while the request is pending, and from the reaction to a change of address) ends,
  when its request is rejected, with \<open>loading = False\<close> and the items held before the call.
\<close>

theorem fetch_failure_keeps_items:
  "fetchItems_settle (Rejected e) s' =
     s'\<lparr>loading := False,
         trace := trace s' @ [ConsoleError (js ''Erreur lors de la recherche:'') (RequestFailed e),
                             SetLoading False]\<rparr>
   \<and> items (fetchItems_settle (Rejected e) s') = items s'
   \<and> loading (fetchItems_settle (Rejected e) s') = False
   \<and> items (fetchItems_start env f s) = items s
   \<and> (backend (fetch_url env f) = Rejected e \<longrightarrow>
        fetchItems env backend f s =
          s\<lparr>loading := False,
             trace := trace s @ [SetLoading True, AxiosGet (fetch_url env f),
                                ConsoleError (js ''Erreur lors de la recherche:'') (RequestFailed e),
                                SetLoading False]\<rparr>
        \<and> loading (fetchItems env backend f s) = False
        \<and> items (fetchItems env backend f s) = items s)
   \<and> (backend (fetch_url env (form_filters s)) = Rejected e \<longrightarrow>
        handleFilterSubmit env backend s =
          s\<lparr>loading := False, showFilters := False,
             trace := trace s @ [SetLoading True, AxiosGet (fetch_url env (form_filters s)),
                                SetShowFilters False,
                                ConsoleError (js ''Erreur lors de la recherche:'') (RequestFailed e),
                                SetLoading False]\<rparr>
        \<and> loading (handleFilterSubmit env backend s) = False
        \<and> items (handleFilterSubmit env backend s) = items s)
   \<and> (backend (fetch_url env (address_filters search)) = Rejected e \<longrightarrow>
        loading (searchEffect env backend search s) = False
        \<and> items (searchEffect env backend search s) = items s)"
proof -
  have 1: "items (fetchItems_settle (Rejected e) s') = items s'"
    "loading (fetchItems_settle (Rejected e) s') = False" for s'
    by (simp_all add: settle_rejected)
  have 2: "items (fetchItems_start env f s) = items s" for f s
    by (simp add: start_state)
  have 3: "fetchItems env backend f s =
          s\<lparr>loading := False,
             trace := trace s @ [SetLoading True, AxiosGet (fetch_url env f),
                                ConsoleError (js ''Erreur lors de la recherche:'') (RequestFailed e),
                                SetLoading False]\<rparr>
        \<and> loading (fetchItems env backend f s) = False
        \<and> items (fetchItems env backend f s) = items s"
    if "backend (fetch_url env f) = Rejected e"
    using that by (simp add: fetchItems_def settle_rejected start_state)
  have 4: "handleFilterSubmit env backend s =
          s\<lparr>loading := False, showFilters := False,
             trace := trace s @ [SetLoading True, AxiosGet (fetch_url env (form_filters s)),
                                SetShowFilters False,
                                ConsoleError (js ''Erreur lors de la recherche:'') (RequestFailed e),
                                SetLoading False]\<rparr>
        \<and> loading (handleFilterSubmit env backend s) = False
        \<and> items (handleFilterSubmit env backend s) = items s"
    if "backend (fetch_url env (form_filters s)) = Rejected e"
    using that by (simp add: handleFilterSubmit_def Let_def settle_rejected start_state setShowFilters_def emit_def)
  have 5: "loading (searchEffect env backend search s) = False
        \<and> items (searchEffect env backend search s) = items s"
    if "backend (fetch_url env (address_filters search)) = Rejected e"
    using that
    by (simp add: searchEffect_def Let_def fetchItems_def settle_rejected start_state seed_buffers_items)
  show ?thesis
    using settle_rejected [of e s'] 1 [of s'] 2 [of f s] 3 4 5 by (intro conjI impI) blast+
qed

theorem fetch_failure_keeps_items_witness:
  "rejecting_backend (fetch_url None (form_filters example_state)) = Rejected (js ''Network Error'')
   \<and> rejecting_backend (fetch_url None (address_filters (js ''?q=velo''))) = Rejected (js ''Network Error'')
   \<and> loading (fetchItems None rejecting_backend (form_filters example_state)
                (example_state\<lparr>items := [example_item]\<rparr>)) = False
   \<and> items (fetchItems None rejecting_backend (form_filters example_state)
              (example_state\<lparr>items := [example_item]\<rparr>)) = [example_item]
   \<and> loading (handleFilterSubmit None rejecting_backend (example_state\<lparr>items := [example_item]\<rparr>)) = False
   \<and> items (handleFilterSubmit None rejecting_backend (example_state\<lparr>items := [example_item]\<rparr>))
       = [example_item]
   \<and> items (searchEffect None rejecting_backend (js ''?q=velo'') (example_state\<lparr>items := [example_item]\<rparr>))
       = [example_item]
   \<and> items (fetchItems_settle (Rejected (js ''Network Error''))
              (example_state\<lparr>items := [example_item], loading := True\<rparr>)) = [example_item]"
proof -
  let ?s = "example_state\<lparr>items := [example_item]\<rparr>"
  have f: "form_filters ?s = form_filters example_state"
    by (simp add: form_filters_def)
  have h: "rejecting_backend u = Rejected (js ''Network Error'')" for u
    by (simp add: rejecting_backend_def)
  show ?thesis
    using h fetch_failure_keeps_items [where backend = rejecting_backend and env = None
        and f = "form_filters example_state" and e = "js ''Network Error''"
        and s = ?s and search = "js ''?q=velo''"
        and s' = "example_state\<lparr>items := [example_item], loading := True\<rparr>"]
    by (simp add: f)
qed

text \<open>
  Claim C6. Within one call of \<^verbatim>\<open>fetchItems\<close>, \<^verbatim>\<open>setLoading(true)\<close> is the event just before
  the request, and \<^verbatim>\<open>setLoading(false)\<close> is the last event after the request has settled,
  whatever the outcome; exactly one event (the items or the logged error) lies between.
\<close>

theorem loading_brackets_request:
  "loading (fetchItems_start env f s) = True
   \<and> trace (fetchItems_start env f s) = trace s @ [SetLoading True, AxiosGet (fetch_url env f)]
   \<and> loading (fetchItems_settle r s') = False
   \<and> (\<exists>ev. trace (fetchItems_settle r s') = trace s' @ [ev, SetLoading False]
            \<and> (\<forall>b. ev \<noteq> SetLoading b) \<and> (\<forall>u. ev \<noteq> AxiosGet u))
   \<and> loading (fetchItems env backend f s) = False
   \<and> (\<exists>ev. trace (fetchItems env backend f s) =
               trace s @ [SetLoading True, AxiosGet (fetch_url env f), ev, SetLoading False]
            \<and> (\<forall>b. ev \<noteq> SetLoading b) \<and> (\<forall>u. ev \<noteq> AxiosGet u))"
proof -
  have 1: "loading (fetchItems_start env f s) = True"
    by (simp add: fetchItems_start_def setters)
  have 2: "loading (fetchItems_settle r s') = False" for r s'
    by (simp add: fetchItems_settle_def setters)
  have 3: "\<exists>ev. trace (fetchItems_settle r s') = trace s' @ [ev, SetLoading False]
            \<and> (\<forall>b. ev \<noteq> SetLoading b) \<and> (\<forall>u. ev \<noteq> AxiosGet u)" for r s'
    using settle_event [of r s'] by blast
  have 4: "\<exists>ev. trace (fetchItems env backend f s) =
               trace s @ [SetLoading True, AxiosGet (fetch_url env f), ev, SetLoading False]
            \<and> (\<forall>b. ev \<noteq> SetLoading b) \<and> (\<forall>u. ev \<noteq> AxiosGet u)"
    using 3 [of "backend (fetch_url env f)" "fetchItems_start env f s"]
    by (auto simp: fetchItems_def trace_fetchItems_start)
  show ?thesis using 1 2 3 4 trace_fetchItems_start by (simp add: fetchItems_def)
qed

theorem loading_brackets_request_witness:
  "loading (fetchItems_start None (form_filters example_state) example_state) = True
   \<and> loading (fetchItems None rejecting_backend (form_filters example_state) example_state) = False
   \<and> loading (fetchItems None empty_backend (form_filters example_state) example_state) = False"
  using loading_brackets_request [of None "form_filters example_state" example_state _ _ rejecting_backend]
        loading_brackets_request [of None "form_filters example_state" example_state _ _ empty_backend]
  by simp

text \<open>
  Claim C7. The reset action empties the category and maximum-price buffers and closes the
  panel; the free-text and canton buffers, the items and the loading flag stay as they were,
  and neither a request nor a navigation is issued.
\<close>

theorem reset_clears_advanced_only:
  "selectedCategory (resetFilters s) = []
   \<and> maxPrice (resetFilters s) = []
   \<and> showFilters (resetFilters s) = False
   \<and> searchQuery (resetFilters s) = searchQuery s
   \<and> selectedCanton (resetFilters s) = selectedCanton s
   \<and> items (resetFilters s) = items s
   \<and> loading (resetFilters s) = loading s
   \<and> trace (resetFilters s) = trace s @ [SetSelectedCategory [], SetMaxPrice [], SetShowFilters False]
   \<and> requests_of (trace (resetFilters s)) = requests_of (trace s)
   \<and> navigations_of (trace (resetFilters s)) = navigations_of (trace s)"
  by (simp add: resetFilters_def setters requests_of_append navigations_of_append)

theorem reset_clears_advanced_only_witness:
  "selectedCategory (resetFilters example_state) = []
   \<and> maxPrice (resetFilters example_state) = []
   \<and> showFilters (resetFilters example_state) = False
   \<and> searchQuery (resetFilters example_state) = js ''velo''
   \<and> selectedCanton (resetFilters example_state) = js ''Vaud''
   \<and> requests_of (trace (resetFilters example_state)) = []"
  using reset_clears_advanced_only [of example_state] by (simp add: example_state_def)

lemma mem_append_nonempty:
  "(name, v) \<in> set (append_nonempty n x ps) \<longleftrightarrow> (name, v) \<in> set ps \<or> (name = n \<and> x = v \<and> v \<noteq> [])"
  by (auto simp: append_nonempty_def)

lemma mem_append_field:
  "(name, v) \<in> set (append_field n x ps) \<longleftrightarrow> (name, v) \<in> set ps \<or> (name = n \<and> x = Some v \<and> v \<noteq> [])"
  by (cases x) (auto simp: append_field_def mem_append_nonempty)

lemma fetch_params_member:
  "(name, v) \<in> set (fetch_params f) \<longleftrightarrow>
     v \<noteq> [] \<and> ((name = js ''q'' \<and> q f = Some v) \<or> (name = js ''canton'' \<and> canton f = Some v)
              \<or> (name = js ''categorie'' \<and> categorie f = Some v)
              \<or> (name = js ''prix_max'' \<and> prix_max f = Some v))"
  unfolding fetch_params_def mem_append_field by auto

lemma names_append_nonempty:
  "map fst (append_nonempty n x ps) = map fst ps @ (if x \<noteq> [] then [n] else [])"
  by (simp add: append_nonempty_def)

lemma names_append_field:
  "map fst (append_field n x ps) = map fst ps @ (if x \<noteq> None \<and> x \<noteq> Some [] then [n] else [])"
  by (cases x) (simp_all add: append_field_def names_append_nonempty)

lemma fetch_params_distinct: "distinct (map fst (fetch_params f))"
  by (simp add: fetch_params_def names_append_field js_inject)

lemma fetch_params_names:
  "set (map fst (fetch_params f)) \<subseteq> {js ''q'', js ''canton'', js ''categorie'', js ''prix_max''}"
  by (auto simp: fetch_params_def names_append_field)

lemma usv_param_names:
  "usv (js ''q'') = js ''q''" "usv (js ''canton'') = js ''canton''"
  "usv (js ''categorie'') = js ''categorie''" "usv (js ''prix_max'') = js ''prix_max''"
  by (simp_all add: usv_ascii ascii_def)

lemma usv_pairs_names:
  "\<forall>n \<in> set (map fst ps). usv n = n \<Longrightarrow>
   map (\<lambda>(name, v). (usv name, usv v)) ps = map (\<lambda>(name, v). (name, usv v)) ps"
  by (induction ps) auto

lemma usv_values_well_formed:
  "\<forall>v \<in> set (map snd ps). well_formed v \<Longrightarrow> map (\<lambda>(name, v). (name, usv v)) ps = ps"
  by (induction ps) (auto simp: usv_well_formed)

lemma parse_fetch_params:
  "URLSearchParams_of_string (params_toString (fetch_params f)) =
     map (\<lambda>(name, v). (name, usv v)) (fetch_params f)"
proof -
  have "\<forall>n \<in> set (map fst (fetch_params f)). usv n = n"
    using fetch_params_names [of f] usv_param_names by auto
  then show ?thesis by (simp only: URLSearchParams_of_serialized usv_pairs_names)
qed

lemma requests_fetchItems:
  "requests_of (trace (fetchItems env backend f s)) = requests_of (trace s) @ [fetch_url env f]"
proof -
  obtain ev where t: "trace (fetchItems env backend f s) =
      trace (fetchItems_start env f s) @ [ev, SetLoading False]" and n: "\<forall>u. ev \<noteq> AxiosGet u"
    using settle_event [of "backend (fetch_url env f)" "fetchItems_start env f s"]
    by (auto simp: fetchItems_def)
  from n have "requests_of [ev, SetLoading False] = []" by (cases ev) simp_all
  then show ?thesis by (simp add: t trace_fetchItems_start requests_of_append)
qed

text \<open>
  Claim C4. The parameters of the request are exactly the non-empty fields of the filters, each
  under its fixed name and at most once; a missing or empty field adds no parameter. One
  request is issued per call, to the items address with these parameters serialised, and
  parsing that query string gives the same parameters back: the same names in the same
  order, each with the scalar value string of its value, which is the value itself when
  that is well formed.
\<close>

theorem request_has_exactly_nonempty_fields:
  "((name, v) \<in> set (fetch_params f) \<longleftrightarrow>
      v \<noteq> [] \<and> ((name = js ''q'' \<and> q f = Some v) \<or> (name = js ''canton'' \<and> canton f = Some v)
               \<or> (name = js ''categorie'' \<and> categorie f = Some v)
               \<or> (name = js ''prix_max'' \<and> prix_max f = Some v)))
   \<and> distinct (map fst (fetch_params f))
   \<and> requests_of (trace (fetchItems env backend f s)) =
       requests_of (trace s) @ [API_BASE_URL env @ js ''/api/items?'' @ params_toString (fetch_params f)]
   \<and> URLSearchParams_of_string (params_toString (fetch_params f)) =
       map (\<lambda>(name, v). (name, usv v)) (fetch_params f)
   \<and> ((\<forall>v \<in> set (map snd (fetch_params f)). well_formed v) \<longrightarrow>
        URLSearchParams_of_string (params_toString (fetch_params f)) = fetch_params f)"
proof -
  have 1: "requests_of (trace (fetchItems env backend f s)) =
       requests_of (trace s) @ [API_BASE_URL env @ js ''/api/items?'' @ params_toString (fetch_params f)]"
    using requests_fetchItems [of env backend f s] by (simp add: fetch_url_def)
  have 2: "(\<forall>v \<in> set (map snd (fetch_params f)). well_formed v) \<longrightarrow>
        URLSearchParams_of_string (params_toString (fetch_params f)) = fetch_params f"
    using usv_values_well_formed [of "fetch_params f"] by (simp only: parse_fetch_params) blast
  show ?thesis
    using fetch_params_member [of name v f] fetch_params_distinct [of f] 1 parse_fetch_params [of f] 2
    by (intro conjI)
qed

lemma params_toString_example:
  "params_toString [(js ''q'', js ''velo''), (js ''prix_max'', js ''50'')] = js ''q=velo&prix_max=50''"
proof -
  have "urlencoded_serialize [(''q'', ''velo''), (''prix_max'', ''50'')] = ''q=velo&prix_max=50''"
    by code_simp
  then show ?thesis
    using params_toString_ascii [of "[(''q'', ''velo''), (''prix_max'', ''50'')]"]
    by (simp add: ascii_def)
qed

theorem request_has_exactly_nonempty_fields_witness:
  "fetch_params \<lparr>q = Some (js ''velo''), canton = Some [], categorie = None, prix_max = Some (js ''50'')\<rparr>
     = [(js ''q'', js ''velo''), (js ''prix_max'', js ''50'')]
   \<and> requests_of (trace (fetchItems None empty_backend
         \<lparr>q = Some (js ''velo''), canton = Some [], categorie = None, prix_max = Some (js ''50'')\<rparr>
         initial_state))
     = [js ''http://localhost:8001/api/items?q=velo&prix_max=50'']
   \<and> well_formed (js ''velo'') \<and> well_formed (js ''50'')
   \<and> URLSearchParams_of_string (js ''q=velo&prix_max=50'')
     = [(js ''q'', js ''velo''), (js ''prix_max'', js ''50'')]"
proof -
  let ?f = "\<lparr>q = Some (js ''velo''), canton = Some [], categorie = None, prix_max = Some (js ''50'')\<rparr>"
  have p: "fetch_params ?f = [(js ''q'', js ''velo''), (js ''prix_max'', js ''50'')]"
    by (simp add: fetch_params_def append_field_def append_nonempty_def js_Nil_iff)
  have w: "well_formed (js ''velo'')" "well_formed (js ''50'')"
    by (simp_all add: js_def is_high_def is_low_def)
  have u: "js ''http://localhost:8001'' @ js ''/api/items?'' @ js ''q=velo&prix_max=50''
             = js ''http://localhost:8001/api/items?q=velo&prix_max=50''"
    by (simp add: js_append [symmetric])
  have t: "trace initial_state = []"
    by (simp add: initial_state_def)
  show ?thesis
    using request_has_exactly_nonempty_fields [of "js ''q''" "js ''velo''" ?f None empty_backend initial_state]
    by (simp add: p w u t params_toString_example API_BASE_URL_def usv_well_formed)
qed

lemma get_append_nonempty:
  "params_get (append_nonempty n x ps) k =
     (case params_get ps k of Some v \<Rightarrow> Some v
      | None \<Rightarrow> if k = n \<and> x \<noteq> [] then Some x else None)"
  by (simp add: params_get_def append_nonempty_def map_add_def split: option.split)

lemma get_append_field:
  "params_get (append_field n x ps) k =
     (case params_get ps k of Some v \<Rightarrow> Some v
      | None \<Rightarrow> if k = n \<and> x \<noteq> None \<and> x \<noteq> Some [] then x else None)"
  by (cases x) (simp_all add: append_field_def get_append_nonempty split: option.split)

lemma get_Nil: "params_get [] k = None"
  by (simp add: params_get_def)

lemma search_params_get:
  "params_get (search_params s) (js ''q'') = (if searchQuery s = [] then None else Some (searchQuery s))"
  "params_get (search_params s) (js ''canton'') =
     (if selectedCanton s = [] then None else Some (selectedCanton s))"
  "params_get (search_params s) (js ''categorie'') =
     (if selectedCategory s = [] then None else Some (selectedCategory s))"
  "params_get (search_params s) (js ''prix_max'') = None"
  by (simp_all add: search_params_def get_append_nonempty get_Nil js_inject split: option.split)

lemma search_params_names:
  "set (map fst (search_params s)) \<subseteq> {js ''q'', js ''canton'', js ''categorie''}"
  by (auto simp: search_params_def names_append_nonempty)

lemma parse_search_params:
  "URLSearchParams_of_string (params_toString (search_params s)) =
     map (\<lambda>(name, v). (name, usv v)) (search_params s)"
  "URLSearchParams_of_string (js ''?'' @ params_toString (search_params s)) =
     map (\<lambda>(name, v). (name, usv v)) (search_params s)"
proof -
  have "\<forall>n \<in> set (map fst (search_params s)). usv n = n"
    using search_params_names [of s] usv_param_names by auto
  then show "URLSearchParams_of_string (params_toString (search_params s)) =
     map (\<lambda>(name, v). (name, usv v)) (search_params s)"
    "URLSearchParams_of_string (js ''?'' @ params_toString (search_params s)) =
     map (\<lambda>(name, v). (name, usv v)) (search_params s)"
    by (simp_all only: URLSearchParams_of_serialized URLSearchParams_of_query usv_pairs_names)
qed

lemma search_params_values:
  "set (map snd (search_params s)) \<subseteq> {searchQuery s, selectedCanton s, selectedCategory s}"
  by (auto simp: search_params_def append_nonempty_def)

lemma parse_search_params_well_formed:
  assumes "well_formed (searchQuery s)" "well_formed (selectedCanton s)" "well_formed (selectedCategory s)"
  shows "URLSearchParams_of_string (params_toString (search_params s)) = search_params s"
proof -
  have "\<forall>v \<in> set (map snd (search_params s)). well_formed v"
    using assms search_params_values [of s] by auto
  then show ?thesis by (simp only: parse_search_params usv_values_well_formed)
qed

lemma trace_handleSearch:
  "trace (handleSearch s) =
     trace s @ [PreventDefault, Navigate (js ''/search?'' @ params_toString (search_params s))]"
  by (simp add: handleSearch_def emit_def)

lemma example_query:
  "params_toString (search_params example_state) = js ''q=velo&canton=Vaud&categorie=Sport''"
proof -
  have "search_params example_state =
          [(js ''q'', js ''velo''), (js ''canton'', js ''Vaud''), (js ''categorie'', js ''Sport'')]"
    by (simp add: search_params_def append_nonempty_def example_state_def js_Nil_iff)
  moreover have "urlencoded_serialize [(''q'', ''velo''), (''canton'', ''Vaud''), (''categorie'', ''Sport'')]
             = ''q=velo&canton=Vaud&categorie=Sport''"
    by code_simp
  ultimately show ?thesis
    using params_toString_ascii [of "[(''q'', ''velo''), (''canton'', ''Vaud''), (''categorie'', ''Sport'')]"]
    by (simp add: ascii_def)
qed

text \<open>
  The primary submit does put the category into the address: with the category buffer holding
  \<open>Sport\<close> the navigation target carries \<^verbatim>\<open>categorie=Sport\<close>.
\<close>

theorem primary_submit_carries_category:
  "navigations_of (trace (handleSearch example_state)) = [js ''/search?q=velo&canton=Vaud&categorie=Sport'']
   \<and> params_get (search_params example_state) (js ''categorie'') = Some (js ''Sport'')"
proof -
  have e: "trace example_state = []" and c: "selectedCategory example_state = js ''Sport''"
    by (simp_all add: example_state_def)
  have n: "js ''Sport'' \<noteq> []"
    by (simp add: js_Nil_iff)
  have u: "js ''/search?'' @ js ''q=velo&canton=Vaud&categorie=Sport''
             = js ''/search?q=velo&canton=Vaud&categorie=Sport''"
    by (simp add: js_append [symmetric])
  show ?thesis
    by (simp add: trace_handleSearch example_query e u search_params_get c n)
qed

text \<open>
  Claim C2, as the code has it. The primary submit changes nothing in the state but the trace,
  to which it adds the navigation to \<^verbatim>\<open>/search?\<close> followed by the serialised parameters.
  These are the non-empty ones among the free-text, canton and category buffers, under the
  names \<^verbatim>\<open>q\<close>, \<^verbatim>\<open>canton\<close>, \<^verbatim>\<open>categorie\<close>; there is never a \<^verbatim>\<open>prix_max\<close> parameter, and
  no request is issued. Parsing the query string gives these parameters back, each value as
  its scalar value string, which is the value itself when the buffers are well formed.
\<close>

theorem primary_submit_navigates:
  "handleSearch s =
     s\<lparr>trace := trace s @ [PreventDefault, Navigate (js ''/search?'' @ params_toString (search_params s))]\<rparr>
   \<and> params_get (search_params s) (js ''q'') = (if searchQuery s = [] then None else Some (searchQuery s))
   \<and> params_get (search_params s) (js ''canton'') =
       (if selectedCanton s = [] then None else Some (selectedCanton s))
   \<and> params_get (search_params s) (js ''categorie'') =
       (if selectedCategory s = [] then None else Some (selectedCategory s))
   \<and> params_get (search_params s) (js ''prix_max'') = None
   \<and> set (map fst (search_params s)) \<subseteq> {js ''q'', js ''canton'', js ''categorie''}
   \<and> URLSearchParams_of_string (params_toString (search_params s)) =
       map (\<lambda>(name, v). (name, usv v)) (search_params s)
   \<and> (well_formed (searchQuery s) \<and> well_formed (selectedCanton s) \<and> well_formed (selectedCategory s)
        \<longrightarrow> URLSearchParams_of_string (params_toString (search_params s)) = search_params s)
   \<and> requests_of (trace (handleSearch s)) = requests_of (trace s)"
proof -
  have r: "requests_of (trace (handleSearch s)) = requests_of (trace s)"
    by (simp add: trace_handleSearch requests_of_append)
  have w: "well_formed (searchQuery s) \<and> well_formed (selectedCanton s) \<and> well_formed (selectedCategory s)
        \<longrightarrow> URLSearchParams_of_string (params_toString (search_params s)) = search_params s"
    using parse_search_params_well_formed [of s] by blast
  have f: "handleSearch s =
     s\<lparr>trace := trace s @ [PreventDefault, Navigate (js ''/search?'' @ params_toString (search_params s))]\<rparr>"
    by (simp add: handleSearch_def emit_def)
  show ?thesis
    using r f w search_params_names [of s] search_params_get [of s] parse_search_params(1) [of s]
    by (intro conjI) assumption+
qed

theorem primary_submit_navigates_witness:
  "navigations_of (trace (handleSearch (example_state\<lparr>selectedCategory := []\<rparr>)))
     = [js ''/search?q=velo&canton=Vaud'']
   \<and> requests_of (trace (handleSearch (example_state\<lparr>selectedCategory := []\<rparr>))) = []
   \<and> well_formed (js ''velo'') \<and> well_formed (js ''Vaud'') \<and> well_formed []
   \<and> URLSearchParams_of_string (js ''q=velo&canton=Vaud'') = [(js ''q'', js ''velo''), (js ''canton'', js ''Vaud'')]"
proof -
  let ?s = "example_state\<lparr>selectedCategory := []\<rparr>"
  have b: "searchQuery ?s = js ''velo''" "selectedCanton ?s = js ''Vaud''" "selectedCategory ?s = []"
    by (simp_all add: example_state_def)
  have w: "well_formed (js ''velo'')" "well_formed (js ''Vaud'')" "well_formed []"
    by (simp_all add: js_def is_high_def is_low_def)
  have p: "search_params ?s = [(js ''q'', js ''velo''), (js ''canton'', js ''Vaud'')]"
    by (simp add: search_params_def append_nonempty_def example_state_def js_Nil_iff)
  have "urlencoded_serialize [(''q'', ''velo''), (''canton'', ''Vaud'')] = ''q=velo&canton=Vaud''"
    by code_simp
  then have u: "params_toString [(js ''q'', js ''velo''), (js ''canton'', js ''Vaud'')] = js ''q=velo&canton=Vaud''"
    using params_toString_ascii [of "[(''q'', ''velo''), (''canton'', ''Vaud'')]"]
    by (simp add: ascii_def)
  have a: "js ''/search?'' @ js ''q=velo&canton=Vaud'' = js ''/search?q=velo&canton=Vaud''"
    by (simp add: js_append [symmetric])
  have e: "trace ?s = []"
    by (simp add: example_state_def)
  have h: "handleSearch ?s =
             ?s\<lparr>trace := trace ?s @ [PreventDefault, Navigate (js ''/search?'' @ params_toString (search_params ?s))]\<rparr>"
    and r: "requests_of (trace (handleSearch ?s)) = requests_of (trace ?s)"
    and g: "well_formed (searchQuery ?s) \<and> well_formed (selectedCanton ?s) \<and> well_formed (selectedCategory ?s)
        \<longrightarrow> URLSearchParams_of_string (params_toString (search_params ?s)) = search_params ?s"
    using primary_submit_navigates [of ?s] by blast+
  have t: "trace (handleSearch ?s) = [PreventDefault, Navigate (js ''/search?q=velo&canton=Vaud'')]"
    by (subst h) (simp add: p u e a)
  have "URLSearchParams_of_string (js ''q=velo&canton=Vaud'') = [(js ''q'', js ''velo''), (js ''canton'', js ''Vaud'')]"
    using g w by (simp only: b p u simp_thms)
  with t r e w show ?thesis by simp
qed

lemma fetchItems_frame:
  "searchQuery (fetchItems env backend f s) = searchQuery s"
  "selectedCanton (fetchItems env backend f s) = selectedCanton s"
  "selectedCategory (fetchItems env backend f s) = selectedCategory s"
  "maxPrice (fetchItems env backend f s) = maxPrice s"
  "showFilters (fetchItems env backend f s) = showFilters s"
  by (simp_all add: fetchItems_def fetchItems_start_def fetchItems_settle_def setters
      split: outcome.split option.split)

lemma seed_buffers_fields:
  "searchQuery (seed_buffers f s) = or_empty (q f)"
  "selectedCanton (seed_buffers f s) = or_empty (canton f)"
  "selectedCategory (seed_buffers f s) = or_empty (categorie f)"
  "maxPrice (seed_buffers f s) = maxPrice s"
  "trace (seed_buffers f s) =
     trace s @ [SetSearchQuery (or_empty (q f)), SetSelectedCanton (or_empty (canton f)),
                SetSelectedCategory (or_empty (categorie f))]"
  by (simp_all add: seed_buffers_def setters)

lemma address_filters_fields:
  "or_empty (q (address_filters search)) =
     or_empty (params_get (URLSearchParams_of_string search) (js ''q''))"
  "or_empty (canton (address_filters search)) =
     or_empty (params_get (URLSearchParams_of_string search) (js ''canton''))"
  "or_empty (categorie (address_filters search)) =
     or_empty (params_get (URLSearchParams_of_string search) (js ''categorie''))"
  "prix_max (address_filters search) = None"
  by (simp_all add: address_filters_def Let_def or_empty_def)

lemma searchEffect_buffers:
  "searchQuery (searchEffect env backend search s) =
     or_empty (params_get (URLSearchParams_of_string search) (js ''q''))"
  "selectedCanton (searchEffect env backend search s) =
     or_empty (params_get (URLSearchParams_of_string search) (js ''canton''))"
  "selectedCategory (searchEffect env backend search s) =
     or_empty (params_get (URLSearchParams_of_string search) (js ''categorie''))"
  "maxPrice (searchEffect env backend search s) = maxPrice s"
  by (simp_all add: searchEffect_def Let_def fetchItems_frame seed_buffers_fields address_filters_fields)

lemma onChange_trace:
  "requests_of (trace (onChange e s)) = requests_of (trace s)"
  "navigations_of (trace (onChange e s)) = navigations_of (trace s)"
  by (cases e; simp add: setters requests_of_append navigations_of_append)+

lemma parse_example_addresses:
  "URLSearchParams_of_string (js ''?q=velo'') = [(js ''q'', js ''velo'')]"
  "URLSearchParams_of_string (js ''?canton=Bern'') = [(js ''canton'', js ''Bern'')]"
proof -
  have "urlencoded_parse ''q=velo'' = [(''q'', ''velo'')]" by code_simp
  then show "URLSearchParams_of_string (js ''?q=velo'') = [(js ''q'', js ''velo'')]"
    using URLSearchParams_of_ascii_query [of "''q=velo''"]
    by (simp add: ascii_def utf8_decode_ascii)
  have "urlencoded_parse ''canton=Bern'' = [(''canton'', ''Bern'')]" by code_simp
  then show "URLSearchParams_of_string (js ''?canton=Bern'') = [(js ''canton'', js ''Bern'')]"
    using URLSearchParams_of_ascii_query [of "''canton=Bern''"]
    by (simp add: ascii_def utf8_decode_ascii)
qed

text \<open>
  A change of address leaves the maximum-price buffer alone: the address \<^verbatim>\<open>?q=velo\<close> has no
  \<^verbatim>\<open>prix_max\<close>, and the buffer still holds \<open>50\<close> after the reaction.
\<close>

theorem address_change_keeps_max_price:
  "params_get (URLSearchParams_of_string (js ''?q=velo'')) (js ''prix_max'') = None
   \<and> maxPrice example_state = js ''50''
   \<and> maxPrice (searchEffect None empty_backend (js ''?q=velo'') example_state) = js ''50''"
proof -
  have "params_get (URLSearchParams_of_string (js ''?q=velo'')) (js ''prix_max'') = None"
    by (simp add: parse_example_addresses params_get_def js_inject)
  moreover have "maxPrice example_state = js ''50''"
    by (simp add: example_state_def)
  ultimately show ?thesis
    by (simp add: searchEffect_buffers)
qed

text \<open>
  Claim C3, as the code has it. On a change of address the free-text, canton and category
  buffers are set to what the address holds under \<^verbatim>\<open>q\<close>, \<^verbatim>\<open>canton\<close> and \<^verbatim>\<open>categorie\<close>, the
  empty string when the parameter is absent; the maximum-price buffer is left as it was. An
  edit of a buffer issues neither a navigation nor a request.
\<close>

theorem address_seeds_three_buffers:
  "searchQuery (searchEffect env backend search s) =
     or_empty (params_get (URLSearchParams_of_string search) (js ''q''))
   \<and> selectedCanton (searchEffect env backend search s) =
       or_empty (params_get (URLSearchParams_of_string search) (js ''canton''))
   \<and> selectedCategory (searchEffect env backend search s) =
       or_empty (params_get (URLSearchParams_of_string search) (js ''categorie''))
   \<and> (params_get (URLSearchParams_of_string search) (js ''q'') = None
        \<longrightarrow> searchQuery (searchEffect env backend search s) = [])
   \<and> (params_get (URLSearchParams_of_string search) (js ''canton'') = None
        \<longrightarrow> selectedCanton (searchEffect env backend search s) = [])
   \<and> (params_get (URLSearchParams_of_string search) (js ''categorie'') = None
        \<longrightarrow> selectedCategory (searchEffect env backend search s) = [])
   \<and> maxPrice (searchEffect env backend search s) = maxPrice s
   \<and> navigations_of (trace (onChange e s)) = navigations_of (trace s)
   \<and> requests_of (trace (onChange e s)) = requests_of (trace s)"
  by (simp add: searchEffect_buffers onChange_trace or_empty_def)

theorem address_seeds_three_buffers_witness:
  "params_get (URLSearchParams_of_string (js ''?q=velo'')) (js ''q'') = Some (js ''velo'')
   \<and> params_get (URLSearchParams_of_string (js ''?q=velo'')) (js ''canton'') = None
   \<and> params_get (URLSearchParams_of_string (js ''?q=velo'')) (js ''categorie'') = None
   \<and> searchQuery (searchEffect None empty_backend (js ''?q=velo'') example_state) = js ''velo''
   \<and> selectedCanton (searchEffect None empty_backend (js ''?q=velo'') example_state) = []
   \<and> selectedCategory (searchEffect None empty_backend (js ''?q=velo'') example_state) = []
   \<and> params_get (URLSearchParams_of_string (js ''?canton=Bern'')) (js ''q'') = None
   \<and> searchQuery (searchEffect None empty_backend (js ''?canton=Bern'') example_state) = []
   \<and> selectedCanton (searchEffect None empty_backend (js ''?canton=Bern'') example_state) = js ''Bern''
   \<and> navigations_of (trace (onChange (EditMaxPrice (js ''80'')) example_state)) = []"
proof -
  have g: "params_get [(js ''q'', js ''velo'')] (js ''q'') = Some (js ''velo'')"
    "params_get [(js ''q'', js ''velo'')] (js ''canton'') = None"
    "params_get [(js ''q'', js ''velo'')] (js ''categorie'') = None"
    "params_get [(js ''canton'', js ''Bern'')] (js ''q'') = None"
    "params_get [(js ''canton'', js ''Bern'')] (js ''canton'') = Some (js ''Bern'')"
    "params_get [(js ''canton'', js ''Bern'')] (js ''categorie'') = None"
    by (simp_all add: params_get_def js_inject)
  have e: "trace example_state = []"
    by (simp add: example_state_def)
  show ?thesis
    using address_seeds_three_buffers [of None empty_backend "js ''?q=velo''" example_state "EditMaxPrice (js ''80'')"]
      address_seeds_three_buffers [of None empty_backend "js ''?canton=Bern''" example_state "EditMaxPrice (js ''80'')"]
    by (simp add: parse_example_addresses g e or_empty_def)
qed

lemma get_usv_values:
  "params_get (map (\<lambda>(name, v). (name, usv v)) ps) k = map_option usv (params_get ps k)"
  by (induction ps) (auto simp: params_get_def)

lemma usv_Nil: "usv [] = []"
  by (simp add: usv_Nil_iff)

lemma search_params_or_empty:
  "or_empty (map_option usv (params_get (search_params s) (js ''q''))) = usv (searchQuery s)"
  "or_empty (map_option usv (params_get (search_params s) (js ''canton''))) = usv (selectedCanton s)"
  "or_empty (map_option usv (params_get (search_params s) (js ''categorie''))) = usv (selectedCategory s)"
  by (simp_all add: search_params_get or_empty_def usv_Nil)

lemma address_filters_of_search_params:
  assumes "URLSearchParams_of_string search = map (\<lambda>(name, v). (name, usv v)) (search_params s)"
  shows "address_filters search =
           \<lparr>q = Some (usv (searchQuery s)), canton = Some (usv (selectedCanton s)),
            categorie = Some (usv (selectedCategory s)), prix_max = None\<rparr>"
  by (simp add: address_filters_def Let_def assms get_usv_values search_params_or_empty)

lemma address_of_form:
  "address_filters (js ''?'' @ params_toString (search_params s)) =
     \<lparr>q = Some (usv (searchQuery s)), canton = Some (usv (selectedCanton s)),
      categorie = Some (usv (selectedCategory s)), prix_max = None\<rparr>"
  "address_filters (params_toString (search_params s)) =
     \<lparr>q = Some (usv (searchQuery s)), canton = Some (usv (selectedCanton s)),
      categorie = Some (usv (selectedCategory s)), prix_max = None\<rparr>"
  by (rule address_filters_of_search_params, rule parse_search_params)+

text \<open>
  The address does not carry the maximum price: a form holding \<open>50\<close> there is encoded without
  it, and what is decoded from that address is not equivalent to what the form held.
\<close>

theorem max_price_lost_in_address:
  "params_toString (search_params example_state) = js ''q=velo&canton=Vaud&categorie=Sport''
   \<and> prix_max (form_filters example_state) = Some (js ''50'')
   \<and> prix_max (address_filters (js ''?q=velo&canton=Vaud&categorie=Sport'')) = None
   \<and> \<not> equivalent (address_filters (js ''?q=velo&canton=Vaud&categorie=Sport'')) (form_filters example_state)"
proof -
  have 1: "prix_max (form_filters example_state) = Some (js ''50'')"
    by (simp add: form_filters_def example_state_def)
  have 2: "prix_max (address_filters (js ''?q=velo&canton=Vaud&categorie=Sport'')) = None"
    by (simp add: address_filters_def Let_def)
  have n: "[] \<noteq> js ''50''"
    by (simp add: js_def)
  have "or_empty (prix_max (address_filters (js ''?q=velo&canton=Vaud&categorie=Sport'')))
          \<noteq> or_empty (prix_max (form_filters example_state))"
    using n by (simp add: 1 2 or_empty_def)
  then have 3: "\<not> equivalent (address_filters (js ''?q=velo&canton=Vaud&categorie=Sport''))
                   (form_filters example_state)"
    by (simp add: equivalent_def)
  show ?thesis
    using example_query 1 2 3 by (intro conjI)
qed

text \<open>
  Nor does it carry an unpaired surrogate: the free text \<open>a\<close>, U+D800, \<open>b\<close> comes back
  with U+FFFD in the place of the surrogate.
\<close>

theorem unpaired_surrogate_lost_in_address:
  "\<not> well_formed [0x61, 0xD800, 0x62]
   \<and> q (address_filters (js ''?'' @ params_toString
         (search_params (initial_state\<lparr>searchQuery := [0x61, 0xD800, 0x62]\<rparr>))))
     = Some [0x61, 0xFFFD, 0x62]"
proof -
  have "usv [0x61, 0xD800, 0x62] = [0x61, 0xFFFD, 0x62]"
    by (simp add: usv_def is_high_def is_low_def utf16_encode_def utf16_encode_code_point_def)
  moreover have "\<not> well_formed [0x61, 0xD800, 0x62]"
    by (simp add: is_high_def is_low_def)
  ultimately show ?thesis
    by (simp add: address_of_form)
qed

text \<open>
  Claim C1, as the code has it. Encoding the form with \<^verbatim>\<open>handleSearch\<close> and decoding the
  resulting address (with or without its leading \<^verbatim>\<open>?\<close>) gives back the scalar value strings
  of the free text, the canton and the category of the form, and no maximum price. When these
  three strings are well formed they come back unchanged, and then the round trip yields an
  equivalent filter set exactly for the forms whose maximum price is empty.
\<close>

theorem address_round_trip:
  "address_filters (js ''?'' @ params_toString (search_params s)) =
     \<lparr>q = Some (usv (searchQuery s)), canton = Some (usv (selectedCanton s)),
      categorie = Some (usv (selectedCategory s)), prix_max = None\<rparr>
   \<and> address_filters (params_toString (search_params s)) =
       address_filters (js ''?'' @ params_toString (search_params s))
   \<and> (well_formed (searchQuery s) \<and> well_formed (selectedCanton s) \<and> well_formed (selectedCategory s)
        \<longrightarrow>
        address_filters (js ''?'' @ params_toString (search_params s)) =
          \<lparr>q = Some (searchQuery s), canton = Some (selectedCanton s),
           categorie = Some (selectedCategory s), prix_max = None\<rparr>
        \<and> (equivalent (address_filters (js ''?'' @ params_toString (search_params s))) (form_filters s)
             \<longleftrightarrow> maxPrice s = []))"
proof -
  have c: "equivalent \<lparr>q = Some (searchQuery s), canton = Some (selectedCanton s),
      categorie = Some (selectedCategory s), prix_max = None\<rparr> (form_filters s) \<longleftrightarrow> maxPrice s = []"
    by (auto simp: equivalent_def form_filters_def or_empty_def)
  show ?thesis
    unfolding address_of_form using c by (simp add: usv_well_formed)
qed

theorem address_round_trip_witness:
  "address_filters (js ''?q=velo&canton=Vaud&categorie=Sport'') =
     \<lparr>q = Some (js ''velo''), canton = Some (js ''Vaud''), categorie = Some (js ''Sport''), prix_max = None\<rparr>
   \<and> well_formed (js ''velo'') \<and> well_formed (js ''Vaud'') \<and> well_formed (js ''Sport'')
   \<and> equivalent (address_filters (js ''?'' @ params_toString (search_params (example_state\<lparr>maxPrice := []\<rparr>))))
        (form_filters (example_state\<lparr>maxPrice := []\<rparr>))"
proof -
  have s: "search_params (example_state\<lparr>maxPrice := []\<rparr>) = search_params example_state"
    by (simp add: search_params_def)
  have f: "searchQuery example_state = js ''velo''" "selectedCanton example_state = js ''Vaud''"
    "selectedCategory example_state = js ''Sport''"
    by (simp_all add: example_state_def)
  have w: "well_formed (js ''velo'')" "well_formed (js ''Vaud'')" "well_formed (js ''Sport'')"
    by (simp_all add: js_def is_high_def is_low_def)
  have a: "js ''?'' @ js ''q=velo&canton=Vaud&categorie=Sport'' = js ''?q=velo&canton=Vaud&categorie=Sport''"
    by (simp add: js_append [symmetric])
  show ?thesis
    using address_round_trip [of example_state] address_round_trip [of "example_state\<lparr>maxPrice := []\<rparr>"]
    by (simp add: s example_query f w a usv_well_formed)
qed

lemma requests_searchEffect:
  "requests_of (trace (searchEffect env backend search s)) =
     requests_of (trace s) @ [fetch_url env (address_filters search)]"
  by (simp add: searchEffect_def Let_def requests_fetchItems seed_buffers_fields requests_of_append)

lemma requests_handleFilterSubmit:
  "requests_of (trace (handleFilterSubmit env backend s)) =
     requests_of (trace s) @ [fetch_url env (form_filters s)]"
proof -
  let ?s1 = "setShowFilters False (fetchItems_start env (form_filters s) s)"
  obtain ev where t: "trace (handleFilterSubmit env backend s) = trace ?s1 @ [ev, SetLoading False]"
    and n: "\<forall>u. ev \<noteq> AxiosGet u"
    using settle_event [of "backend (fetch_url env (form_filters s))" ?s1]
    by (auto simp: handleFilterSubmit_def Let_def)
  from n have "requests_of [ev, SetLoading False] = []" by (cases ev) simp_all
  moreover have "trace ?s1 = trace s @ [SetLoading True, AxiosGet (fetch_url env (form_filters s)), SetShowFilters False]"
    by (simp add: fetchItems_start_def setters)
  ultimately show ?thesis by (simp add: t requests_of_append)
qed

lemma requests_other_actions:
  assumes "\<forall>search. a \<noteq> LocationChange search" and "a \<noteq> ApplyFilters"
  shows "requests_of (trace (dispatch env backend a s)) = requests_of (trace s)"
proof (cases a)
  case (LocationChange search)
  with assms show ?thesis by simp
next
  case SubmitSearch
  then show ?thesis by (simp add: trace_handleSearch requests_of_append)
next
  case ApplyFilters
  with assms show ?thesis by simp
next
  case ResetFilters
  then show ?thesis by (simp add: resetFilters_def setters requests_of_append)
next
  case ToggleFilters
  then show ?thesis by (simp add: toggleFilters_def setters requests_of_append)
next
  case (Change e)
  then show ?thesis by (simp add: onChange_trace)
qed

lemma address_fetch_params:
  "params_get (fetch_params (address_filters search)) (js ''prix_max'') = None"
  "set (map fst (fetch_params (address_filters search))) \<subseteq> {js ''q'', js ''canton'', js ''categorie''}"
  by (auto simp: fetch_params_def address_filters_def Let_def get_append_field get_Nil
      names_append_field js_inject split: option.split)

lemma form_fetch_max_price:
  "maxPrice s \<noteq> [] \<Longrightarrow> params_get (fetch_params (form_filters s)) (js ''prix_max'') = Some (maxPrice s)"
  by (simp add: fetch_params_def form_filters_def get_append_field get_Nil js_inject split: option.split)

text \<open>
  Claim C10. The request issued by the reaction to a change of address is built from the
  filters read from the address, which never have a maximum price: its parameters are among
  \<^verbatim>\<open>q\<close>, \<^verbatim>\<open>canton\<close>, \<^verbatim>\<open>categorie\<close>, whatever the maximum-price buffer holds. The request of
  the apply-filters action carries \<^verbatim>\<open>prix_max\<close> when that buffer is not empty, and no other
  action issues a request.
\<close>

theorem address_fetch_has_no_max_price:
  "requests_of (trace (searchEffect env backend search s)) =
     requests_of (trace s)
       @ [API_BASE_URL env @ js ''/api/items?'' @ params_toString (fetch_params (address_filters search))]
   \<and> prix_max (address_filters search) = None
   \<and> params_get (fetch_params (address_filters search)) (js ''prix_max'') = None
   \<and> set (map fst (fetch_params (address_filters search))) \<subseteq> {js ''q'', js ''canton'', js ''categorie''}
   \<and> params_get (URLSearchParams_of_string (params_toString (fetch_params (address_filters search))))
        (js ''prix_max'') = None
   \<and> requests_of (trace (handleFilterSubmit env backend s)) =
       requests_of (trace s)
         @ [API_BASE_URL env @ js ''/api/items?'' @ params_toString (fetch_params (form_filters s))]
   \<and> (maxPrice s \<noteq> [] \<longrightarrow>
        params_get (fetch_params (form_filters s)) (js ''prix_max'') = Some (maxPrice s))
   \<and> ((\<forall>search. a \<noteq> LocationChange search) \<and> a \<noteq> ApplyFilters \<longrightarrow>
        requests_of (trace (dispatch env backend a s)) = requests_of (trace s))"
proof -
  have 1: "requests_of (trace (searchEffect env backend search s)) =
     requests_of (trace s)
       @ [API_BASE_URL env @ js ''/api/items?'' @ params_toString (fetch_params (address_filters search))]"
    using requests_searchEffect [of env backend search s] by (simp add: fetch_url_def)
  have 2: "prix_max (address_filters search) = None"
    by (rule address_filters_fields)
  have 3: "params_get (URLSearchParams_of_string (params_toString (fetch_params (address_filters search))))
        (js ''prix_max'') = None"
    by (simp add: parse_fetch_params get_usv_values address_fetch_params)
  have 4: "requests_of (trace (handleFilterSubmit env backend s)) =
       requests_of (trace s)
         @ [API_BASE_URL env @ js ''/api/items?'' @ params_toString (fetch_params (form_filters s))]"
    using requests_handleFilterSubmit [of env backend s] by (simp add: fetch_url_def)
  have 5: "(\<forall>search. a \<noteq> LocationChange search) \<and> a \<noteq> ApplyFilters \<longrightarrow>
        requests_of (trace (dispatch env backend a s)) = requests_of (trace s)"
    using requests_other_actions [of a env backend s] by blast
  have 6: "maxPrice s \<noteq> [] \<longrightarrow>
        params_get (fetch_params (form_filters s)) (js ''prix_max'') = Some (maxPrice s)"
    using form_fetch_max_price [of s] by blast
  show ?thesis
    using 1 2 address_fetch_params [of search] 3 4 6 5 by (intro conjI)
qed

theorem address_fetch_has_no_max_price_witness:
  "maxPrice example_state = js ''50''
   \<and> requests_of (trace (searchEffect None empty_backend (js ''?q=velo'') example_state))
       = [js ''http://localhost:8001/api/items?q=velo'']
   \<and> requests_of (trace (handleFilterSubmit None empty_backend example_state))
       = [js ''http://localhost:8001/api/items?q=velo&canton=Vaud&categorie=Sport&prix_max=50'']
   \<and> params_get (fetch_params (form_filters example_state)) (js ''prix_max'') = Some (js ''50'')
   \<and> requests_of (trace (dispatch None empty_backend SubmitSearch example_state)) = []"
proof -
  have m: "maxPrice example_state = js ''50''" and e: "trace example_state = []"
    by (simp_all add: example_state_def)
  have n: "js ''50'' \<noteq> []"
    by (simp add: js_Nil_iff)
  have "address_filters (js ''?q=velo'') =
          \<lparr>q = Some (js ''velo''), canton = Some [], categorie = Some [], prix_max = None\<rparr>"
    by (simp add: address_filters_def Let_def parse_example_addresses params_get_def or_empty_def js_inject)
  then have fa: "fetch_params (address_filters (js ''?q=velo'')) = [(js ''q'', js ''velo'')]"
    by (simp add: fetch_params_def append_field_def append_nonempty_def js_Nil_iff)
  have "urlencoded_serialize [(''q'', ''velo'')] = ''q=velo''"
    by code_simp
  then have a: "params_toString [(js ''q'', js ''velo'')] = js ''q=velo''"
    using params_toString_ascii [of "[(''q'', ''velo'')]"] by (simp add: ascii_def)
  have ff: "fetch_params (form_filters example_state) =
              [(js ''q'', js ''velo''), (js ''canton'', js ''Vaud''), (js ''categorie'', js ''Sport''),
               (js ''prix_max'', js ''50'')]"
    by (simp add: fetch_params_def form_filters_def append_field_def append_nonempty_def
        example_state_def js_Nil_iff)
  have "urlencoded_serialize
          [(''q'', ''velo''), (''canton'', ''Vaud''), (''categorie'', ''Sport''), (''prix_max'', ''50'')]
        = ''q=velo&canton=Vaud&categorie=Sport&prix_max=50''"
    by code_simp
  then have b: "params_toString
          [(js ''q'', js ''velo''), (js ''canton'', js ''Vaud''), (js ''categorie'', js ''Sport''),
           (js ''prix_max'', js ''50'')]
        = js ''q=velo&canton=Vaud&categorie=Sport&prix_max=50''"
    using params_toString_ascii
      [of "[(''q'', ''velo''), (''canton'', ''Vaud''), (''categorie'', ''Sport''), (''prix_max'', ''50'')]"]
    by (simp add: ascii_def)
  have u: "js ''http://localhost:8001'' @ js ''/api/items?'' @ js ''q=velo''
             = js ''http://localhost:8001/api/items?q=velo''"
    "js ''http://localhost:8001'' @ js ''/api/items?'' @ js ''q=velo&canton=Vaud&categorie=Sport&prix_max=50''
             = js ''http://localhost:8001/api/items?q=velo&canton=Vaud&categorie=Sport&prix_max=50''"
    by (simp_all add: js_append [symmetric])
  have c: "(\<forall>search. SubmitSearch \<noteq> LocationChange search) \<and> SubmitSearch \<noteq> ApplyFilters"
    by simp
  show ?thesis
    using address_fetch_has_no_max_price [of None empty_backend "js ''?q=velo''" example_state SubmitSearch] c
    by (simp add: m e n fa a ff b u API_BASE_URL_def)
qed

text \<open>
  A card whose item has no image and an empty title shows the placeholder block with no
  character in it: there is no first character to show.
\<close>

theorem untitled_item_has_no_initial:
  "images (example_item\<lparr>titre := []\<rparr>) = Some []
   \<and> charAt (titre (example_item\<lparr>titre := []\<rparr>)) 0 = []
   \<and> card_media (ItemCard None (example_item\<lparr>titre := []\<rparr>)) = Placeholder (UpperCase [])"
  by (simp add: ItemCard_def charAt_def example_item_def)

text \<open>
  Claim C8, as the code has it. For an item whose sequence of images is empty the card never
  shows an image element but the placeholder block. When the title is not empty the block
  holds the first code unit of the title put to upper case; when the title is empty it holds
  the empty string.
\<close>

theorem no_image_gives_initial_placeholder:
  assumes "images it = Some []"
  shows "(\<forall>src alt. card_media (ItemCard env it) \<noteq> Img src alt)
         \<and> (titre it \<noteq> [] \<longrightarrow>
              card_media (ItemCard env it) = Placeholder (UpperCase [hd (titre it)]))
         \<and> (titre it = [] \<longrightarrow> card_media (ItemCard env it) = Placeholder (UpperCase []))"
  using assms by (cases "titre it") (simp_all add: ItemCard_def charAt_def)

theorem no_image_gives_initial_placeholder_witness:
  "images example_item = Some []
   \<and> titre example_item \<noteq> []
   \<and> card_media (ItemCard None example_item) = Placeholder (UpperCase (js ''p''))
   \<and> images (example_item\<lparr>titre := []\<rparr>) = Some []
   \<and> card_media (ItemCard None (example_item\<lparr>titre := []\<rparr>)) = Placeholder (UpperCase [])"
proof -
  have h: "images example_item = Some []" and h': "images (example_item\<lparr>titre := []\<rparr>) = Some []"
    by (simp_all add: example_item_def)
  have t: "titre example_item = js ''perceuse''"
    by (simp add: example_item_def)
  have p: "js ''perceuse'' \<noteq> []" "[hd (js ''perceuse'')] = js ''p''"
    by (simp_all add: js_def)
  show ?thesis
    using h h' no_image_gives_initial_placeholder [OF h, of None]
      no_image_gives_initial_placeholder [OF h', of None]
    by (simp add: t p)
qed

text \<open>
  Claim C9. For an average rating of 0 the card shows the label \<^verbatim>\<open>Nouveau\<close> and not a
  formatted number; for a rating above 0 it shows the rating formatted by \<^verbatim>\<open>toFixed(1)\<close>.
\<close>

theorem unrated_label_for_zero:
  "(note_moyenne it = 0 \<longrightarrow>
      rating (ItemCard env it) = Lit (js ''Nouveau'') \<and> rating (ItemCard env it) \<noteq> Fixed 0 1
      \<and> rating (ItemCard env it) \<noteq> Lit (js ''0.0''))
   \<and> (note_moyenne it > 0 \<longrightarrow> rating (ItemCard env it) = Fixed (note_moyenne it) 1)"
  by (simp add: ItemCard_def js_inject)

theorem unrated_label_for_zero_witness:
  "note_moyenne example_item = 0
   \<and> rating (ItemCard None example_item) = Lit (js ''Nouveau'')
   \<and> note_moyenne (example_item\<lparr>note_moyenne := 4.5\<rparr>) > 0
   \<and> rating (ItemCard None (example_item\<lparr>note_moyenne := 4.5\<rparr>)) = Fixed 4.5 1"
proof -
  have z: "note_moyenne example_item = 0"
    by (simp add: example_item_def)
  have p: "note_moyenne (example_item\<lparr>note_moyenne := 4.5\<rparr>) > 0"
    by simp
  show ?thesis
    using z p unrated_label_for_zero [of example_item None]
      unrated_label_for_zero [of "example_item\<lparr>note_moyenne := 4.5\<rparr>" None]
    by simp
qed

end
